theory Spec2Isabelle
  imports Complex_Main "HOL-Library.Sublist"
begin

section \<open>Values, errors and the library operations the tool calls\<close>

text \<open>
  The tool \<^verbatim>\<open>loadreviewtools.py\<close> reads whitespace-delimited plot files into
  dictionaries of numpy arrays and writes two text summaries. Every \<^verbatim>\<open>raise\<close>
  of the Python run time that the code can reach is a value of \<open>error\<close>.
\<close>

datatype error = FileNotFoundError | IndexError | KeyError | ValueError | TypeError

text \<open>
  A double is not-a-number, an infinity, the negative zero, or another finite number (a
  rational here: every finite double is one, and only the order of the values matters
  below). \<open>Fin 0\<close> is the positive zero; the two zeros compare equal and are two values,
  which \<^verbatim>\<open>%f\<close> renders differently.
\<close>

datatype dbl = NaN | NegInf | Fin rat | NegZero | PosInf

text \<open>The comparison \<^verbatim>\<open><=\<close> of doubles: false as soon as one side is NaN.\<close>

fun dbl_le :: "dbl \<Rightarrow> dbl \<Rightarrow> bool" where
  "dbl_le NaN y = False"
| "dbl_le NegInf y = (y \<noteq> NaN)"
| "dbl_le (Fin a) y =
     (case y of Fin b \<Rightarrow> a \<le> b | NegZero \<Rightarrow> a \<le> 0 | PosInf \<Rightarrow> True | _ \<Rightarrow> False)"
| "dbl_le NegZero y =
     (case y of Fin b \<Rightarrow> 0 \<le> b | NegZero \<Rightarrow> True | PosInf \<Rightarrow> True | _ \<Rightarrow> False)"
| "dbl_le PosInf y = (y = PosInf)"

definition isnan :: "dbl \<Rightarrow> bool" where
  "isnan x = (x = NaN)"

text \<open>An array element is a byte string or a double; a numpy array has one element type.\<close>

datatype cell = Str string | Dbl dbl

datatype column = StrCol "string list" | DblCol "dbl list"

text \<open>
  \<^verbatim>\<open>np.array(list)\<close>. A list of byte strings becomes an array of fixed-width byte
  strings, whose elements read back without their trailing NUL bytes; the empty list
  becomes an empty array of doubles, whatever its elements would have been.
\<close>

definition rstrip_nul :: "string \<Rightarrow> string" where
  "rstrip_nul s = rev (dropWhile (\<lambda>c. c = CHR 0x00) (rev s))"

definition np_array_bytes :: "string list \<Rightarrow> column" where
  "np_array_bytes xs = (if xs = [] then DblCol [] else StrCol (map rstrip_nul xs))"

definition np_array_double :: "dbl list \<Rightarrow> column" where
  "np_array_double xs = DblCol xs"

type_synonym table = "string \<rightharpoonup> column"

text \<open>
  Three operations of the Python and numpy run time are parameters of the model:
  \<^verbatim>\<open>np.double(token)\<close> (\<open>None\<close> when it raises ValueError), the conversion \<^verbatim>\<open>%f\<close> of
  a double and the conversion \<^verbatim>\<open>%s\<close> of an array element.
\<close>

record lib =
  np_double :: "string \<Rightarrow> dbl option"
  fmt_f :: "dbl \<Rightarrow> string"
  fmt_s :: "cell \<Rightarrow> string"

text \<open>\<^verbatim>\<open>"%f" % v\<close> raises TypeError when \<open>v\<close> is a byte string.\<close>

definition pct_f :: "lib \<Rightarrow> cell \<Rightarrow> error + string" where
  "pct_f L v = (case v of Str s \<Rightarrow> Inl TypeError | Dbl d \<Rightarrow> Inr (fmt_f L d))"

definition col_length :: "column \<Rightarrow> nat" where
  "col_length c = (case c of StrCol xs \<Rightarrow> length xs | DblCol xs \<Rightarrow> length xs)"

text \<open>\<^verbatim>\<open>array[i]\<close>: a negative index counts from the end, an index out of range raises.\<close>

definition col_get :: "column \<Rightarrow> int \<Rightarrow> error + cell" where
  "col_get c i =
     (let n = int (col_length c); j = (if i < 0 then n + i else i)
      in if 0 \<le> j \<and> j < n
         then Inr (case c of StrCol xs \<Rightarrow> Str (xs ! nat j) | DblCol xs \<Rightarrow> Dbl (xs ! nat j))
         else Inl IndexError)"

text \<open>\<^verbatim>\<open>data[name]\<close> on a dictionary.\<close>

definition getitem :: "('k \<rightharpoonup> 'v) \<Rightarrow> 'k \<Rightarrow> error + 'v" where
  "getitem d k = (case d k of None \<Rightarrow> Inl KeyError | Some v \<Rightarrow> Inr v)"

subsection \<open>numpy's argmax, argmin, nanargmax and nanargmin\<close>

text \<open>
  \<^verbatim>\<open>np.argmax\<close> scans from the left, keeps the first maximum and treats a NaN as
  maximal; on an empty array it raises ValueError.
\<close>

fun argmax_loop :: "dbl list \<Rightarrow> nat \<Rightarrow> dbl \<Rightarrow> nat \<Rightarrow> nat" where
  "argmax_loop [] i mp mi = mi"
| "argmax_loop (x # xs) i mp mi =
     (if \<not> dbl_le x mp
      then (if isnan x then i else argmax_loop xs (Suc i) x i)
      else argmax_loop xs (Suc i) mp mi)"

definition argmax :: "dbl list \<Rightarrow> error + nat" where
  "argmax a = (case a of [] \<Rightarrow> Inl ValueError
               | x # xs \<Rightarrow> Inr (if isnan x then 0 else argmax_loop xs 1 x 0))"

fun argmin_loop :: "dbl list \<Rightarrow> nat \<Rightarrow> dbl \<Rightarrow> nat \<Rightarrow> nat" where
  "argmin_loop [] i mp mi = mi"
| "argmin_loop (x # xs) i mp mi =
     (if \<not> dbl_le mp x
      then (if isnan x then i else argmin_loop xs (Suc i) x i)
      else argmin_loop xs (Suc i) mp mi)"

definition argmin :: "dbl list \<Rightarrow> error + nat" where
  "argmin a = (case a of [] \<Rightarrow> Inl ValueError
               | x # xs \<Rightarrow> Inr (if isnan x then 0 else argmin_loop xs 1 x 0))"

text \<open>
  \<^verbatim>\<open>_replace_nan(a, val)\<close> returns a copy of \<open>a\<close> with every NaN replaced by \<open>val\<close>,
  and the mask of the replaced positions.
\<close>

definition replace_nan :: "dbl list \<Rightarrow> dbl \<Rightarrow> dbl list \<times> bool list" where
  "replace_nan a val = (map (\<lambda>x. if isnan x then val else x) a, map isnan a)"

text \<open>
  \<^verbatim>\<open>np.nanargmax(a)\<close> replaces NaN by minus infinity, raises ValueError on an all-NaN
  array and otherwise returns \<^verbatim>\<open>np.argmax\<close> of the copy; \<^verbatim>\<open>np.nanargmin\<close> does the
  same with plus infinity and \<^verbatim>\<open>np.argmin\<close>.
\<close>

definition nanargmax :: "dbl list \<Rightarrow> error + nat" where
  "nanargmax a =
     (let (a', mask) = replace_nan a NegInf
      in if mask \<noteq> [] \<and> list_all id mask then Inl ValueError else argmax a')"

definition nanargmin :: "dbl list \<Rightarrow> error + nat" where
  "nanargmin a =
     (let (a', mask) = replace_nan a PosInf
      in if mask \<noteq> [] \<and> list_all id mask then Inl ValueError else argmin a')"

text \<open>
  On an array of byte strings there is nothing to replace, and the extremum is the one of
  the byte-wise lexicographic order, first occurrence.
\<close>

fun bytes_le :: "string \<Rightarrow> string \<Rightarrow> bool" where
  "bytes_le [] ys = True"
| "bytes_le (x # xs) [] = False"
| "bytes_le (x # xs) (y # ys) =
     ((of_char x :: nat) < of_char y \<or> (x = y \<and> bytes_le xs ys))"

fun bytes_arg_loop :: "(string \<Rightarrow> string \<Rightarrow> bool) \<Rightarrow> string list \<Rightarrow> nat \<Rightarrow> string \<Rightarrow> nat \<Rightarrow> nat" where
  "bytes_arg_loop le [] i mp mi = mi"
| "bytes_arg_loop le (x # xs) i mp mi =
     (if \<not> le x mp then bytes_arg_loop le xs (Suc i) x i
      else bytes_arg_loop le xs (Suc i) mp mi)"

definition col_nanargmax :: "column \<Rightarrow> error + nat" where
  "col_nanargmax c =
     (case c of DblCol a \<Rightarrow> nanargmax a
      | StrCol [] \<Rightarrow> Inl ValueError
      | StrCol (x # xs) \<Rightarrow> Inr (bytes_arg_loop bytes_le xs 1 x 0))"

definition col_nanargmin :: "column \<Rightarrow> error + nat" where
  "col_nanargmin c =
     (case c of DblCol a \<Rightarrow> nanargmin a
      | StrCol [] \<Rightarrow> Inl ValueError
      | StrCol (x # xs) \<Rightarrow> Inr (bytes_arg_loop (\<lambda>a b. bytes_le b a) xs 1 x 0))"

section \<open>The schema registry\<close>

record schema =
  columns :: nat
  names :: "string list"
  title :: string

definition fileparts :: "string \<rightharpoonup> string" where
  "fileparts = map_of
     [(''psmc'', ''_1pdeaat_plot.txt''),
      (''dpa'', ''_dpa_plot.txt''),
      (''dea'', ''_dea_plot.txt''),
      (''tank'', ''_pftank2t_plot.txt''),
      (''aca'', ''_aca_plot.txt''),
      (''mups'', ''_mups_valves_plot.txt''),
      (''oba'', ''_4rt700t_plot.txt''),
      (''pline03t'', ''_pline03t_plot.txt''),
      (''pline04t'', ''_pline04t_plot.txt''),
      (''hrc'', ''_2ceahvpt_plot.txt''),
      (''acisfp'', ''_acis_fp_plot.txt'')]"

definition headerinfo_list :: "(string \<times> schema) list" where
  "headerinfo_list =
     [(''psmc'', \<lparr>columns = 6,
         names = [''Time'', ''1PDEAAT'', ''PIN1AT'', ''Pitch'', ''Roll'', ''Sun_Body_Y''],
         title = ''ACIS: PSMC''\<rparr>),
      (''dpa'', \<lparr>columns = 11,
         names = [''Time'', ''1DPAMZT'', ''DPA0'', ''Pitch'', ''Roll'', ''Sun_Body_Y'',
                  ''SimPos'', ''FEP_Count'', ''CCD_Count'', ''Vid_Board'', ''Clocking''],
         title = ''ACIS: DPA''\<rparr>),
      (''dea'', \<lparr>columns = 11,
         names = [''Time'', ''1DEAMZT'', ''DEA0'', ''Pitch'', ''Roll'', ''Sun_Body_Y'',
                  ''SimPos'', ''FEP_Count'', ''CCD_Count'', ''Vid_Board'', ''Clocking''],
         title = ''ACIS: DEA''\<rparr>),
      (''tank'', \<lparr>columns = 7,
         names = [''Time'', ''PFTANK2T'', ''PFTANKIP'', ''PF0TANK2T'', ''Pitch'', ''Roll'',
                  ''Sun_Body_Y''],
         title = ''Spacecraft: Fuel Tank''\<rparr>),
      (''aca'', \<lparr>columns = 5,
         names = [''Time'', ''AACCCDPT'', ''ACA0'', ''Pitch'', ''Roll''],
         title = ''Spacecraft: Aspect Camera''\<rparr>),
      (''mups'', \<lparr>columns = 6,
         names = [''Time'', ''PM1THV2T'', ''PM1THV2T_0'', ''PM2THV1T'', ''PM2THV1T_0'',
                  ''PM2THV1T_1''],
         title = ''Spacecraft: MUPS Valves''\<rparr>),
      (''cc'', \<lparr>columns = 5,
         names = [''Time'', ''TCYLAFT6'', ''TCYLAFT6_0'', ''Pitch'', ''Roll''],
         title = ''Spacecraft: Central Cylinder''\<rparr>),
      (''oba'', \<lparr>columns = 5,
         names = [''Time'', ''4RT700T'', ''4RT700T_0'', ''Pitch'', ''Roll''],
         title = ''OBA: Forward Bulkhead''\<rparr>),
      (''pline03t'', \<lparr>columns = 5,
         names = [''Time'', ''PLINE03T'', ''PLINE03T_0'', ''Pitch'', ''Roll''],
         title = ''PLINE03T''\<rparr>),
      (''pline04t'', \<lparr>columns = 5,
         names = [''Time'', ''PLINE04T'', ''PLINE04T_0'', ''Pitch'', ''Roll''],
         title = ''PLINE04T''\<rparr>),
      (''hrc'', \<lparr>columns = 19,
         names = [''Time'', ''2CEAHVPT'', ''CEA0'', ''CEA1'', ''15V'', ''24V'', ''HRCI'',
                  ''HRCS'', ''Shield'', ''5V_A'', ''5V_B'', ''Pitch'', ''Roll'', ''SimPos'',
                  ''FEP_Count'', ''CCD_Count'', ''Vid_Board'', ''Clocking'', ''DH_Heater''],
         title = ''ISIM: HRC CEA''\<rparr>),
      (''acisfp'', \<lparr>columns = 23,
         names = [''Time'', ''FPTEMP'', ''FPTEMP_Rel'', ''Solid_Angle'', ''in_out'', ''1CBAT'',
                  ''SIM_PX'', ''Pitch'', ''Roll'', ''Sun_Body_Y'', ''SimPos'', ''FEP_Count'',
                  ''CCD_Count'', ''Vid_Board'', ''Clocking'', ''CTI'', ''Radmon_Enabled'',
                  ''DH_Heater'', ''ACIS_NIL_Undercover'', ''SI'', ''Cold_FP'',
                  ''FPTEMP_Limit'', ''Within_Limit''],
         title = ''ISIM: ACIS FP''\<rparr>)]"

definition headerinfo_init :: "string \<rightharpoonup> schema" where
  "headerinfo_init = map_of headerinfo_list"

definition propnames :: "string list" where
  "propnames =
     [''PM1THV2T'', ''PM1THV2T_0'', ''PM2THV1T'', ''PM2THV1T_0'', ''PM2THV1T_1'', ''1PDEAAT'',
      ''PIN1AT'', ''TCYLAFT6'', ''TCYLAFT6_0'', ''1DPAMZT'', ''DPA0'', ''PFTANK2T'',
      ''PF0TANK2T'', ''SimPos'', ''chips'', ''FEP_Count'', ''CCD_Count'', ''Vid_Board'',
      ''Clocking'', ''AACCCDPT'', ''ACA0'', ''4RT700T'', ''4RT700T_0'', ''1DEAMZT'', ''DEA0'',
      ''Roll'', ''Sun_Body_Y'', ''PLINE03T'', ''PLINE03T_0'', ''PLINE04T'', ''PLINE04T_0'',
      ''2CEAHVPT'', ''CEA0'', ''CEA1'', ''15V'', ''24V'', ''HRCI'', ''HRCS'', ''Shield'',
      ''5V_A'', ''5V_B'', ''FPTEMP'', ''FPTEMP_Rel'', ''Solid_Angle'', ''in_out'', ''1CBAT'',
      ''CTI'', ''Radmon_Enabled'', ''DH_Heater'', ''ACIS_NIL_Undercover'', ''SI'', ''Cold_FP'',
      ''FPTEMP_Limit'', ''Within_Limit'']"

definition plotorder :: "string list" where
  "plotorder = [''oba'', ''tank'', ''mups'', ''psmc'', ''dpa'', ''dea'', ''aca'', ''pline03t'',
                ''pline04t'', ''acisfp'']"

section \<open>The table parser\<close>

text \<open>
  \<^verbatim>\<open>name.lower()\<close> and the test \<^verbatim>\<open>name.lower() in ["time", "si", ...]\<close> that
  selects the columns kept as strings. A name is the byte string of its UTF-8 encoding;
  \<open>lower\<close> changes the ASCII capitals only. A name with a character beyond ASCII fails
  the test in the source (no such character lower-cases to a letter of the ten names) and
  here (its bytes from 128 on stay), so the test is the same.
\<close>

definition lower_char :: "char \<Rightarrow> char" where
  "lower_char c =
     (case map_of (zip ''ABCDEFGHIJKLMNOPQRSTUVWXYZ'' ''abcdefghijklmnopqrstuvwxyz'') c of
        None \<Rightarrow> c | Some d \<Rightarrow> d)"

definition lower :: "string \<Rightarrow> string" where
  "lower s = map lower_char s"

definition opaque_names :: "string list" where
  "opaque_names = [''time'', ''si'', ''within_limit'', ''15v'', ''24v'', ''hrci'', ''hrcs'',
                   ''shield'', ''5v_a'', ''5v_b'']"

definition is_opaque :: "string \<Rightarrow> bool" where
  "is_opaque name = (lower name \<in> set opaque_names)"

text \<open>
  \<^verbatim>\<open>line.strip().split()\<close> on bytes: the maximal runs of bytes other than space, tab,
  line feed, vertical tab, form feed and carriage return.
\<close>

definition is_space :: "char \<Rightarrow> bool" where
  "is_space c = (c \<in> set [CHR '' '', CHR 0x09, CHR 0x0A, CHR 0x0B, CHR 0x0C, CHR 0x0D])"

definition strip :: "string \<Rightarrow> string" where
  "strip s = rev (dropWhile is_space (rev (dropWhile is_space s)))"

fun split_aux :: "string \<Rightarrow> string \<Rightarrow> string list" where
  "split_aux [] cur = (if cur = [] then [] else [rev cur])"
| "split_aux (c # cs) cur =
     (if is_space c
      then (if cur = [] then split_aux cs [] else rev cur # split_aux cs [])
      else split_aux cs (c # cur))"

definition split :: "string \<Rightarrow> string list" where
  "split s = split_aux s []"

definition tokens :: "string \<Rightarrow> string list" where
  "tokens line = split (strip line)"

text \<open>\<^verbatim>\<open>line.strip().split()[num]\<close> raises IndexError on a line with too few tokens.\<close>

definition token :: "nat \<Rightarrow> string \<Rightarrow> error + string" where
  "token num line = (let ts = tokens line in if num < length ts then Inr (ts ! num) else Inl IndexError)"

definition double_token :: "lib \<Rightarrow> nat \<Rightarrow> string \<Rightarrow> error + dbl" where
  "double_token L num line =
     (case token num line of Inl e \<Rightarrow> Inl e
      | Inr t \<Rightarrow> (case np_double L t of None \<Rightarrow> Inl ValueError | Some d \<Rightarrow> Inr d))"

text \<open>A list comprehension whose element expression may raise: the first failure wins.\<close>

fun collect :: "('a \<Rightarrow> error + 'b) \<Rightarrow> 'a list \<Rightarrow> error + 'b list" where
  "collect f [] = Inr []"
| "collect f (x # xs) =
     (case f x of Inl e \<Rightarrow> Inl e
      | Inr y \<Rightarrow> (case collect f xs of Inl e \<Rightarrow> Inl e | Inr ys \<Rightarrow> Inr (y # ys)))"

text \<open>
  The loop \<^verbatim>\<open>for num, name in enumerate(subheaderinfo["names"])\<close> of \<^verbatim>\<open>_readfile\<close>,
  with the dictionary \<open>data\<close> as accumulator.
\<close>

fun read_columns :: "lib \<Rightarrow> string list \<Rightarrow> nat \<Rightarrow> string list \<Rightarrow> table \<Rightarrow> error + table" where
  "read_columns L datalines num [] data = Inr data"
| "read_columns L datalines num (name # rest) data =
     (if is_opaque name
      then (case collect (token num) datalines of Inl e \<Rightarrow> Inl e
            | Inr xs \<Rightarrow>
                read_columns L datalines (Suc num) rest (data(name \<mapsto> np_array_bytes xs)))
      else (case collect (double_token L num) datalines of Inl e \<Rightarrow> Inl e
            | Inr xs \<Rightarrow>
                read_columns L datalines (Suc num) rest (data(name \<mapsto> np_array_double xs))))"

text \<open>
  \<^verbatim>\<open>_readfile(filename, subheaderinfo)\<close>. The file system maps a file name to the list
  \<^verbatim>\<open>readlines()\<close> returns; \<^verbatim>\<open>datalines.pop(0)\<close> raises IndexError on an empty file.
\<close>

type_synonym filesystem = "string \<rightharpoonup> string list"

definition readfile :: "lib \<Rightarrow> filesystem \<Rightarrow> string \<Rightarrow> schema \<Rightarrow> error + table" where
  "readfile L fs filename subheaderinfo =
     (case fs filename of None \<Rightarrow> Inl FileNotFoundError
      | Some [] \<Rightarrow> Inl IndexError
      | Some (header # datalines) \<Rightarrow> read_columns L datalines 0 (names subheaderinfo) Map.empty)"

section \<open>Writing: output performed before an exception stays performed\<close>

text \<open>
  A piece of code that writes to a stream yields the strings it has written, in order, and
  the exception that stopped it, if any. The arguments of a \<^verbatim>\<open>write\<close> are evaluated
  before the call, so a write whose argument raises writes nothing.
\<close>

type_synonym wr = "string list \<times> error option"

definition write1 :: "error + string \<Rightarrow> wr" where
  "write1 r = (case r of Inl e \<Rightarrow> ([], Some e) | Inr s \<Rightarrow> ([s], None))"

definition andThen :: "wr \<Rightarrow> wr \<Rightarrow> wr" where
  "andThen r1 r2 =
     (case snd r1 of Some e \<Rightarrow> (fst r1, Some e) | None \<Rightarrow> (fst r1 @ fst r2, snd r2))"

fun seq :: "wr list \<Rightarrow> wr" where
  "seq [] = ([], None)"
| "seq (r # rs) = andThen r (seq rs)"

definition nl :: string where
  "nl = [CHR 0x0A]"

section \<open>The comparison report writer\<close>

text \<open>\<^verbatim>\<open>"Start:    %s\n" % (data["Time"][0])\<close> and \<^verbatim>\<open>"\nEnd: %s\n" % (data["Time"][-1])\<close>.\<close>

definition time_line :: "lib \<Rightarrow> string \<Rightarrow> table \<Rightarrow> int \<Rightarrow> error + string" where
  "time_line L label d i =
     (case getitem d ''Time'' of Inl e \<Rightarrow> Inl e
      | Inr c \<Rightarrow> (case col_get c i of Inl e \<Rightarrow> Inl e
                  | Inr v \<Rightarrow> Inr (label @ fmt_s L v @ nl)))"

text \<open>
  One pass of \<^verbatim>\<open>for name in names\<close> over row \<open>i\<close> of a table: \<^verbatim>\<open>%s\<close> for the
  columns kept as strings, \<^verbatim>\<open>%f\<close> for the others.
\<close>

definition value_line :: "lib \<Rightarrow> table \<Rightarrow> int \<Rightarrow> string \<Rightarrow> error + string" where
  "value_line L d i name =
     (case getitem d name of Inl e \<Rightarrow> Inl e
      | Inr c \<Rightarrow> (case col_get c i of Inl e \<Rightarrow> Inl e
          | Inr v \<Rightarrow>
             (if is_opaque name then Inr (''    '' @ name @ '': '' @ fmt_s L v @ nl)
              else (case pct_f L v of Inl e \<Rightarrow> Inl e
                    | Inr s \<Rightarrow> Inr (''    '' @ name @ '': '' @ s @ nl)))))"

fun value_lines :: "lib \<Rightarrow> table \<Rightarrow> int \<Rightarrow> string list \<Rightarrow> wr" where
  "value_lines L d i [] = ([], None)"
| "value_lines L d i (name # rest) =
     andThen (write1 (value_line L d i name)) (value_lines L d i rest)"

text \<open>
  The loops under \<^verbatim>\<open>Max Values\<close> and \<^verbatim>\<open>Min Values\<close>: the index \<open>arg\<close> finds in the
  review column, then that column's value and the Time at this index; the tuple of
  arguments is built before \<^verbatim>\<open>%\<close> formats it.
\<close>

definition extreme_line :: "lib \<Rightarrow> (column \<Rightarrow> error + nat) \<Rightarrow> table \<Rightarrow> string \<Rightarrow> error + string" where
  "extreme_line L arg reviewdata name =
     (case getitem reviewdata name of Inl e \<Rightarrow> Inl e
      | Inr c \<Rightarrow> (case arg c of Inl e \<Rightarrow> Inl e
          | Inr ind \<Rightarrow> (case col_get c (int ind) of Inl e \<Rightarrow> Inl e
              | Inr v \<Rightarrow> (case getitem reviewdata ''Time'' of Inl e \<Rightarrow> Inl e
                  | Inr tc \<Rightarrow> (case col_get tc (int ind) of Inl e \<Rightarrow> Inl e
                      | Inr t \<Rightarrow> (case pct_f L v of Inl e \<Rightarrow> Inl e
                          | Inr s \<Rightarrow> Inr (''    '' @ name @ '': '' @ s @ ''  ('' @ fmt_s L t
                                            @ '')'' @ nl)))))))"

fun extreme_lines :: "lib \<Rightarrow> (column \<Rightarrow> error + nat) \<Rightarrow> table \<Rightarrow> string list \<Rightarrow> wr" where
  "extreme_lines L arg reviewdata [] = ([], None)"
| "extreme_lines L arg reviewdata (name # rest) =
     (if \<not> is_opaque name
      then andThen (write1 (extreme_line L arg reviewdata name))
                   (extreme_lines L arg reviewdata rest)
      else extreme_lines L arg reviewdata rest)"

text \<open>\<^verbatim>\<open>_writeReportData(outfile, propdata, reviewdata, names, modelname)\<close>: what it writes
  to \<open>outfile\<close> (the parameter \<^verbatim>\<open>names\<close> is \<open>datanames\<close> here).\<close>

definition writeReportData :: "lib \<Rightarrow> table \<Rightarrow> table \<Rightarrow> string list \<Rightarrow> string \<Rightarrow> wr" where
  "writeReportData L propdata reviewdata datanames modelname =
     seq [([replicate 79 CHR ''-'' @ nl,
            modelname @ '' Report'' @ nl,
            replicate 79 CHR ''-'' @ nl @ nl,
            ''Propagation:'' @ nl,
            ''------------'' @ nl], None),
          write1 (time_line L ''Start:    '' propdata 0),
          value_lines L propdata 0 datanames,
          ([nl @ ''Reviewed Schedule:'' @ nl,
            ''-------------------'' @ nl], None),
          write1 (time_line L ''Start:    '' reviewdata 0),
          value_lines L reviewdata 0 datanames,
          ([nl @ ''Max Values:'' @ nl], None),
          extreme_lines L col_nanargmax reviewdata datanames,
          ([nl @ ''Min Values:'' @ nl], None),
          extreme_lines L col_nanargmin reviewdata datanames,
          write1 (time_line L (nl @ ''End: '') reviewdata (- 1)),
          value_lines L reviewdata (- 1) datanames,
          ([nl @ nl @ nl], None)]"

section \<open>The two drivers\<close>

text \<open>
  What a run can change: the schema registry \<^verbatim>\<open>self.headerinfo\<close> (its name lists are
  mutable Python lists), the output file the writer opened, and standard output.
\<close>

record world =
  headerinfo :: "string \<rightharpoonup> schema"
  outfile :: "string list"
  stdout :: "string list"

definition world_init :: world where
  "world_init = \<lparr>headerinfo = headerinfo_init, outfile = [], stdout = []\<rparr>"

text \<open>
  The body of \<^verbatim>\<open>for name in self.plotorder\<close> in \<^verbatim>\<open>writeChecklistData\<close>.
  \<^verbatim>\<open>datanames.pop(0)\<close> removes the first element of the registry's own list.
\<close>

fun checklist_loop :: "lib \<Rightarrow> filesystem \<Rightarrow> string \<Rightarrow> string \<Rightarrow> string list \<Rightarrow> world \<Rightarrow> error option \<times> world" where
  "checklist_loop L fs prop review [] w = (None, w)"
| "checklist_loop L fs prop review (name # rest) w =
     (case fileparts name of None \<Rightarrow> (Some KeyError, w)
      | Some part \<Rightarrow>
     (case headerinfo w name of None \<Rightarrow> (Some KeyError, w)
      | Some sub \<Rightarrow>
     (case readfile L fs (prop @ part) sub of Inl e \<Rightarrow> (Some e, w)
      | Inr propdata \<Rightarrow>
     (case readfile L fs (review @ part) sub of Inl e \<Rightarrow> (Some e, w)
      | Inr reviewdata \<Rightarrow>
     (case names sub of [] \<Rightarrow> (Some IndexError, w)
      | time # datanames \<Rightarrow>
         (let w1 = w\<lparr>headerinfo := (headerinfo w)(name \<mapsto> sub\<lparr>names := datanames\<rparr>)\<rparr>;
              r1 = writeReportData L propdata reviewdata datanames (title sub);
              w2 = w1\<lparr>outfile := outfile w1 @ fst r1\<rparr>
          in (case snd r1 of Some e \<Rightarrow> (Some e, w2)
              | None \<Rightarrow>
                 (let r2 = writeReportData L propdata reviewdata datanames (title sub);
                      w3 = w2\<lparr>stdout := stdout w2 @ fst r2\<rparr>
                  in (case snd r2 of Some e \<Rightarrow> (Some e, w3)
                      | None \<Rightarrow> checklist_loop L fs prop review rest w3)))))))))"

definition writeChecklistData :: "lib \<Rightarrow> filesystem \<Rightarrow> string \<Rightarrow> string \<Rightarrow> world \<Rightarrow> error option \<times> world" where
  "writeChecklistData L fs prop review w =
     (let reviewfilename = review @ ''_Thermal_Load_Review_Report.txt'';
          r = checklist_loop L fs prop review plotorder (w\<lparr>outfile := []\<rparr>)
      in (case fst r of Some e \<Rightarrow> r
          | None \<Rightarrow> (None, (snd r)\<lparr>stdout := stdout (snd r) @
               [''Wrote thermal report data to '' @ reviewfilename
                @ ''_Thermal_Load_Review_Report.txt'' @ nl @ nl]\<rparr>)))"

text \<open>\<^verbatim>\<open>" %s : %f\n" % (loc, propdata[loc][-1])\<close> and the loop over \<^verbatim>\<open>datanames\<close> around it.\<close>

definition prop_line :: "lib \<Rightarrow> table \<Rightarrow> string \<Rightarrow> error + string" where
  "prop_line L propdata loc =
     (case getitem propdata loc of Inl e \<Rightarrow> Inl e
      | Inr c \<Rightarrow> (case col_get c (- 1) of Inl e \<Rightarrow> Inl e
          | Inr v \<Rightarrow> (case pct_f L v of Inl e \<Rightarrow> Inl e
              | Inr s \<Rightarrow> Inr ('' '' @ loc @ '' : '' @ s @ nl))))"

fun prop_lines :: "lib \<Rightarrow> table \<Rightarrow> string list \<Rightarrow> wr" where
  "prop_lines L propdata [] = ([], None)"
| "prop_lines L propdata (loc # rest) =
     (if loc \<in> set propnames
      then andThen (write1 (prop_line L propdata loc)) (prop_lines L propdata rest)
      else prop_lines L propdata rest)"

text \<open>The body of \<^verbatim>\<open>for num, name in enumerate(self.plotorder)\<close> in \<^verbatim>\<open>writePropData\<close>.\<close>

fun prop_loop :: "lib \<Rightarrow> filesystem \<Rightarrow> string \<Rightarrow> nat \<Rightarrow> string list \<Rightarrow> world \<Rightarrow> error option \<times> world" where
  "prop_loop L fs prop num [] w = (None, w)"
| "prop_loop L fs prop num (name # rest) w =
     (case fileparts name of None \<Rightarrow> (Some KeyError, w)
      | Some part \<Rightarrow>
     (case headerinfo w name of None \<Rightarrow> (Some KeyError, w)
      | Some sub \<Rightarrow>
     (case readfile L fs (prop @ part) sub of Inl e \<Rightarrow> (Some e, w)
      | Inr propdata \<Rightarrow>
         (let datanames = drop 1 (names sub);
              r = andThen (if num = 0
                           then write1 (time_line L ''Time of Validity:  '' propdata (- 1))
                           else ([], None))
                          (prop_lines L propdata datanames);
              w1 = w\<lparr>outfile := outfile w @ fst r\<rparr>
          in (case snd r of Some e \<Rightarrow> (Some e, w1)
              | None \<Rightarrow> prop_loop L fs prop (Suc num) rest w1)))))"

definition writePropData :: "lib \<Rightarrow> filesystem \<Rightarrow> string \<Rightarrow> world \<Rightarrow> error option \<times> world" where
  "writePropData L fs prop w =
     (let propfilename = prop @ ''_Ending_Configuration.txt'';
          r = prop_loop L fs prop 0 plotorder (w\<lparr>outfile := []\<rparr>)
      in (case fst r of Some e \<Rightarrow> r
          | None \<Rightarrow> (None, (snd r)\<lparr>stdout := stdout (snd r) @
               [''Wrote propagation ending data to '' @ propfilename @ nl]\<rparr>)))"

section \<open>One iteration of each driver loop\<close>

text \<open>
  What one iteration of the loop of \<^verbatim>\<open>writeChecklistData\<close> writes to the report file
  for the model \<open>name\<close>, and the exception that ends it, under the registry \<open>hi\<close>; and
  the same for iteration \<open>num\<close> of the loop of \<^verbatim>\<open>writePropData\<close>. The lemmas
  \<open>checklist_loop_seq\<close> and \<open>prop_loop_seq\<close> show that the loops are the sequences of
  these iterations.
\<close>

definition model_report :: "lib \<Rightarrow> filesystem \<Rightarrow> string \<Rightarrow> string \<Rightarrow> (string \<rightharpoonup> schema) \<Rightarrow> string \<Rightarrow> wr" where
  "model_report L fs prop review hi name =
     (case fileparts name of None \<Rightarrow> ([], Some KeyError)
      | Some part \<Rightarrow>
     (case hi name of None \<Rightarrow> ([], Some KeyError)
      | Some sub \<Rightarrow>
     (case readfile L fs (prop @ part) sub of Inl e \<Rightarrow> ([], Some e)
      | Inr propdata \<Rightarrow>
     (case readfile L fs (review @ part) sub of Inl e \<Rightarrow> ([], Some e)
      | Inr reviewdata \<Rightarrow>
     (case names sub of [] \<Rightarrow> ([], Some IndexError)
      | time # datanames \<Rightarrow> writeReportData L propdata reviewdata datanames (title sub))))))"

definition model_prop :: "lib \<Rightarrow> filesystem \<Rightarrow> string \<Rightarrow> (string \<rightharpoonup> schema) \<Rightarrow> nat \<Rightarrow> string \<Rightarrow> wr" where
  "model_prop L fs prop hi num name =
     (case fileparts name of None \<Rightarrow> ([], Some KeyError)
      | Some part \<Rightarrow>
     (case hi name of None \<Rightarrow> ([], Some KeyError)
      | Some sub \<Rightarrow>
     (case readfile L fs (prop @ part) sub of Inl e \<Rightarrow> ([], Some e)
      | Inr propdata \<Rightarrow>
         andThen (if num = 0
                  then write1 (time_line L ''Time of Validity:  '' propdata (- 1))
                  else ([], None))
                 (prop_lines L propdata (drop 1 (names sub))))))"

section \<open>Notions of the specification and of the proofs, and example data\<close>



text \<open>Negation of a double, which turns a minimum into a maximum.\<close>

fun neg :: "dbl \<Rightarrow> dbl" where
  "neg NaN = NaN"
| "neg NegInf = PosInf"
| "neg PosInf = NegInf"
| "neg NegZero = Fin 0"
| "neg (Fin r) = (if r = 0 then NegZero else Fin (- r))"

text \<open>
  One pass of the loop of \<^verbatim>\<open>_readfile\<close>: the array built for the name at position
  \<open>num\<close> (a notion of the proofs; \<open>read_columns_step\<close> relates it to the loop).
\<close>

definition column_at :: "lib \<Rightarrow> string list \<Rightarrow> nat \<Rightarrow> string \<Rightarrow> error + column" where
  "column_at L datalines num name =
     (if is_opaque name
      then (case collect (token num) datalines of Inl e \<Rightarrow> Inl e
            | Inr xs \<Rightarrow> Inr (np_array_bytes xs))
      else (case collect (double_token L num) datalines of Inl e \<Rightarrow> Inl e
            | Inr xs \<Rightarrow> Inr (np_array_double xs)))"

text \<open>
  Data lines are well formed for a schema when each has at least as many tokens as the
  schema has names and \<^verbatim>\<open>np.double\<close> accepts its tokens at the positions of the numeric
  columns; they have a number in every numeric column when each such position holds, on
  some line, a token whose double is not NaN.
\<close>

definition well_formed :: "lib \<Rightarrow> schema \<Rightarrow> string list \<Rightarrow> bool" where
  "well_formed L sub datalines =
     (\<forall>l\<in>set datalines. length (names sub) \<le> length (tokens l)
        \<and> (\<forall>k<length (names sub).
              \<not> is_opaque (names sub ! k) \<longrightarrow> np_double L (tokens l ! k) \<noteq> None))"

definition has_number :: "lib \<Rightarrow> schema \<Rightarrow> string list \<Rightarrow> bool" where
  "has_number L sub datalines =
     (\<forall>k<length (names sub). \<not> is_opaque (names sub ! k) \<longrightarrow>
        (\<exists>l\<in>set datalines. np_double L (tokens l ! k) \<notin> {None, Some NaN}))"

text \<open>
  The input of a model is in order for the comparison report when its propagation file
  and its review file exist, have a header and at least one data line, are well formed
  for the model's schema, and the review file has a number in every numeric column.
\<close>

definition model_input_ok :: "lib \<Rightarrow> filesystem \<Rightarrow> string \<Rightarrow> string \<Rightarrow> string \<Rightarrow> bool" where
  "model_input_ok L fs prop review m =
     (case (fileparts m, headerinfo_init m) of
        (Some part, Some sub) \<Rightarrow>
          (case (fs (prop @ part), fs (review @ part)) of
             (Some (header # datalines), Some (header' # datalines')) \<Rightarrow>
               datalines \<noteq> [] \<and> datalines' \<noteq> []
               \<and> well_formed L sub datalines \<and> well_formed L sub datalines'
               \<and> has_number L sub datalines'
           | _ \<Rightarrow> False)
      | _ \<Rightarrow> False)"

text \<open>
  The three defects of the input that the specification names for the comparison report:
  a missing file, a token of a numeric column that \<^verbatim>\<open>np.double\<close> rejects, a numeric
  column of the review table that holds nothing but NaN.
\<close>

definition bad_token :: "lib \<Rightarrow> schema \<Rightarrow> string list \<Rightarrow> bool" where
  "bad_token L sub datalines =
     (\<exists>l\<in>set datalines. \<exists>num<length (names sub).
        \<not> is_opaque (names sub ! num) \<and> num < length (tokens l)
        \<and> np_double L (tokens l ! num) = None)"

definition all_nan_column :: "schema \<Rightarrow> table \<Rightarrow> bool" where
  "all_nan_column sub reviewdata =
     (\<exists>name\<in>set (tl (names sub)). \<not> is_opaque name
        \<and> (case reviewdata name of Some (DblCol a) \<Rightarrow> a \<noteq> [] \<and> set a \<subseteq> {NaN} | _ \<Rightarrow> False))"

definition input_defect :: "lib \<Rightarrow> filesystem \<Rightarrow> string \<Rightarrow> string \<Rightarrow> string \<Rightarrow> bool" where
  "input_defect L fs prop review m =
     (case (fileparts m, headerinfo_init m) of
        (Some part, Some sub) \<Rightarrow>
          fs (prop @ part) = None \<or> fs (review @ part) = None
          \<or> (\<exists>f\<in>{prop @ part, review @ part}.
                case fs f of Some (header # datalines) \<Rightarrow> bad_token L sub datalines
                | _ \<Rightarrow> False)
          \<or> (case readfile L fs (review @ part) sub of
                Inr reviewdata \<Rightarrow> all_nan_column sub reviewdata | Inl e \<Rightarrow> False)
      | _ \<Rightarrow> False)"

text \<open>
  A table is well shaped for the names \<open>datanames\<close> when it has a Time column of byte
  strings and, for each of the names, a column of the same positive length: of byte
  strings for a name kept as strings, of doubles for any other.
\<close>

definition well_shaped :: "string list \<Rightarrow> table \<Rightarrow> bool" where
  "well_shaped datanames t =
     (case t ''Time'' of
        Some (StrCol ts) \<Rightarrow> ts \<noteq> []
          \<and> (\<forall>name\<in>set datanames.
                case t name of
                  Some (StrCol xs) \<Rightarrow> is_opaque name \<and> length xs = length ts
                | Some (DblCol a) \<Rightarrow> \<not> is_opaque name \<and> length a = length ts
                | None \<Rightarrow> False)
      | _ \<Rightarrow> False)"

definition numeric_column :: "table \<Rightarrow> string \<Rightarrow> dbl list" where
  "numeric_column t name = (case t name of Some (DblCol a) \<Rightarrow> a | _ \<Rightarrow> [])"

definition time_column :: "table \<Rightarrow> string list" where
  "time_column t = (case t ''Time'' of Some (StrCol ts) \<Rightarrow> ts | _ \<Rightarrow> [])"

text \<open>The text of a line that was written (the empty string for a line that was not).\<close>

definition text_of :: "error + string \<Rightarrow> string" where
  "text_of r = (case r of Inl e \<Rightarrow> [] | Inr s \<Rightarrow> s)"

text \<open>
  The report section as the specification lays it out: the underlined title, the
  Propagation block and the Reviewed Schedule block (first rows), the Max Values and the
  Min Values of the numeric columns of the review table, and the End block (last row of
  the review table).
\<close>

definition value_block :: "lib \<Rightarrow> table \<Rightarrow> int \<Rightarrow> string list \<Rightarrow> string list" where
  "value_block L t i datanames = map (\<lambda>n. text_of (value_line L t i n)) datanames"

definition extreme_block :: "lib \<Rightarrow> (column \<Rightarrow> error + nat) \<Rightarrow> table \<Rightarrow> string list \<Rightarrow> string list" where
  "extreme_block L arg t datanames =
     map (\<lambda>n. text_of (extreme_line L arg t n)) (filter (\<lambda>n. \<not> is_opaque n) datanames)"

definition section_text :: "lib \<Rightarrow> table \<Rightarrow> table \<Rightarrow> string list \<Rightarrow> string \<Rightarrow> string list" where
  "section_text L propdata reviewdata datanames modelname =
     [replicate 79 CHR ''-'' @ nl, modelname @ '' Report'' @ nl,
      replicate 79 CHR ''-'' @ nl @ nl, ''Propagation:'' @ nl, ''------------'' @ nl]
     @ [text_of (time_line L ''Start:    '' propdata 0)]
     @ value_block L propdata 0 datanames
     @ [nl @ ''Reviewed Schedule:'' @ nl, ''-------------------'' @ nl]
     @ [text_of (time_line L ''Start:    '' reviewdata 0)]
     @ value_block L reviewdata 0 datanames
     @ [nl @ ''Max Values:'' @ nl]
     @ extreme_block L col_nanargmax reviewdata datanames
     @ [nl @ ''Min Values:'' @ nl]
     @ extreme_block L col_nanargmin reviewdata datanames
     @ [text_of (time_line L (nl @ ''End: '') reviewdata (- 1))]
     @ value_block L reviewdata (- 1) datanames
     @ [nl @ nl @ nl]"

text \<open>
  An example library. It agrees with \<^verbatim>\<open>np.double\<close> on the seven tokens it accepts and
  on \<^verbatim>\<open>abc\<close>, which it rejects as it rejects every other token; with \<^verbatim>\<open>%f\<close> on the
  values of these tokens and on zero; with \<^verbatim>\<open>%s\<close> (Python 3: the \<^verbatim>\<open>repr\<close> of the
  bytes) on byte strings of printable ASCII without quote or backslash, and on the same
  doubles. Every other value it renders as a question mark. The theorems hold for every
  library; the examples use this one on the tokens and values it agrees on.
\<close>

definition demo_fmt_f :: "dbl \<Rightarrow> string" where
  "demo_fmt_f d =
     (case d of NaN \<Rightarrow> ''nan'' | NegInf \<Rightarrow> ''-inf'' | PosInf \<Rightarrow> ''inf''
      | NegZero \<Rightarrow> ''-0.000000''
      | Fin r \<Rightarrow> (if r = 0 then ''0.000000'' else if r = 1 then ''1.000000''
                  else if r = 3 then ''3.000000'' else if r = 5 then ''5.000000'' else ''?''))"

definition demo_str :: "dbl \<Rightarrow> string" where
  "demo_str d =
     (case d of NaN \<Rightarrow> ''nan'' | NegInf \<Rightarrow> ''-inf'' | PosInf \<Rightarrow> ''inf''
      | NegZero \<Rightarrow> ''-0.0''
      | Fin r \<Rightarrow> (if r = 0 then ''0.0'' else if r = 1 then ''1.0''
                  else if r = 3 then ''3.0'' else if r = 5 then ''5.0'' else ''?''))"

definition demo_repr :: "string \<Rightarrow> string" where
  "demo_repr s = ''b'' @ [CHR 0x27] @ s @ [CHR 0x27]"

definition demo_lib :: lib where
  "demo_lib =
     \<lparr>np_double = map_of [(''1.0'', Fin 1), (''3.0'', Fin 3), (''5.0'', Fin 5),
                          (''-0.0'', NegZero), (''nan'', NaN), (''-inf'', NegInf),
                          (''inf'', PosInf)],
      fmt_f = demo_fmt_f,
      fmt_s = (\<lambda>v. case v of Str s \<Rightarrow> demo_repr s | Dbl d \<Rightarrow> demo_str d)\<rparr>"

text \<open>The registry's entry for \<^verbatim>\<open>oba\<close>, for the examples.\<close>

definition demo_schema :: schema where
  "demo_schema = \<lparr>columns = 5, names = [''Time'', ''4RT700T'', ''4RT700T_0'', ''Pitch'', ''Roll''],
                  title = ''OBA: Forward Bulkhead''\<rparr>"

text \<open>
  Two example file systems. In \<open>demo_fs\<close> the propagation file of \<^verbatim>\<open>tank\<close> (schedule
  \<^verbatim>\<open>P\<close>) is missing and every other file holds a header and one data line that is well
  formed for \<^verbatim>\<open>oba\<close>. In \<open>demo_fs_all\<close> every file holds a header and one data line of
  twenty-three tokens, well formed for every schema of the registry.
\<close>

definition demo_fs :: filesystem where
  "demo_fs = (\<lambda>f. if f = ''P_pftank2t_plot.txt'' then None
                  else Some [''Time 4RT700T 4RT700T_0 Pitch Roll'', ''2012:001 1.0 3.0 5.0 1.0''])"

definition demo_line :: string where
  "demo_line = ''2012:001'' @ concat (replicate 22 '' 1.0'')"

definition demo_fs_all :: filesystem where
  "demo_fs_all = (\<lambda>f. Some [''header'', demo_line])"

definition demo_table :: table where
  "demo_table = [''Time'' \<mapsto> StrCol [''2012:001''], ''4RT700T'' \<mapsto> DblCol [Fin 1],
     ''4RT700T_0'' \<mapsto> DblCol [Fin 3], ''Pitch'' \<mapsto> DblCol [Fin 5], ''Roll'' \<mapsto> DblCol [Fin 1]]"

section \<open>Order of doubles and the first extremum\<close>

lemma dbl_le_total: "x \<noteq> NaN \<Longrightarrow> y \<noteq> NaN \<Longrightarrow> dbl_le x y \<or> dbl_le y x"
  by (cases x; cases y) auto

lemma dbl_le_trans: "dbl_le x y \<Longrightarrow> dbl_le y z \<Longrightarrow> dbl_le x z"
  by (cases x; cases y; cases z) auto

lemma dbl_le_refl: "x \<noteq> NaN \<Longrightarrow> dbl_le x x"
  by (cases x) auto

lemma dbl_le_NaN_right [simp]: "\<not> dbl_le x NaN"
  by (cases x) auto

lemma dbl_le_neg [simp]: "dbl_le (neg x) (neg y) = dbl_le y x"
  by (cases x; cases y) auto

lemma neg_eq_NaN [simp]: "(neg x = NaN) = (x = NaN)"
  by (cases x) auto

lemma neg_neg [simp]: "neg (neg x) = x"
  by (cases x) auto

lemma argmin_loop_neg: "argmin_loop xs i mp mi = argmax_loop (map neg xs) i (neg mp) mi"
  by (induction xs arbitrary: i mp mi) (simp_all add: isnan_def)

lemma argmin_neg: "argmin a = argmax (map neg a)"
  by (cases a) (simp_all add: argmin_def argmax_def argmin_loop_neg isnan_def)

lemma nanargmin_neg: "nanargmin a = nanargmax (map neg a)"
proof -
  have "map (\<lambda>x. if isnan x then NegInf else x) (map neg a) = map neg (map (\<lambda>x. if isnan x then PosInf else x) a)"
    by (induction a) (simp_all add: isnan_def)
  moreover have "map isnan (map neg a) = map isnan a"
    by (induction a) (simp_all add: isnan_def)
  ultimately show ?thesis
    by (simp add: nanargmin_def nanargmax_def replace_nan_def argmin_neg del: map_map)
qed


lemma argmax_loop_first:
  assumes "NaN \<notin> set pre" "NaN \<notin> set xs" "mi < length pre" "pre ! mi = mp"
    "\<forall>j<length pre. dbl_le (pre ! j) mp" "\<forall>j<mi. \<not> dbl_le mp (pre ! j)"
  shows "argmax_loop xs (length pre) mp mi < length (pre @ xs)
     \<and> (\<forall>j<length (pre @ xs). dbl_le ((pre @ xs) ! j) ((pre @ xs) ! argmax_loop xs (length pre) mp mi))
     \<and> (\<forall>j<argmax_loop xs (length pre) mp mi. \<not> dbl_le ((pre @ xs) ! argmax_loop xs (length pre) mp mi) ((pre @ xs) ! j))"
  using assms
proof (induction xs arbitrary: pre mp mi)
  case Nil
  then show ?case by simp
next
  case (Cons x xs)
  have xn: "x \<noteq> NaN" using Cons.prems(2) by auto
  have mpn: "mp \<noteq> NaN" using Cons.prems(1,3,4) by (metis nth_mem)
  have app: "pre @ x # xs = (pre @ [x]) @ xs" by simp
  show ?case
  proof (cases "dbl_le x mp")
    case True
    have "argmax_loop xs (length (pre @ [x])) mp mi < length ((pre @ [x]) @ xs)
     \<and> (\<forall>j<length ((pre @ [x]) @ xs). dbl_le (((pre @ [x]) @ xs) ! j) (((pre @ [x]) @ xs) ! argmax_loop xs (length (pre @ [x])) mp mi))
     \<and> (\<forall>j<argmax_loop xs (length (pre @ [x])) mp mi. \<not> dbl_le (((pre @ [x]) @ xs) ! argmax_loop xs (length (pre @ [x])) mp mi) (((pre @ [x]) @ xs) ! j))"
    proof (rule Cons.IH)
      show "NaN \<notin> set (pre @ [x])" using Cons.prems(1) xn by auto
      show "NaN \<notin> set xs" using Cons.prems(2) by auto
      show "mi < length (pre @ [x])" using Cons.prems(3) by simp
      show "(pre @ [x]) ! mi = mp" using Cons.prems(3,4) by (simp add: nth_append)
      show "\<forall>j<length (pre @ [x]). dbl_le ((pre @ [x]) ! j) mp"
        using Cons.prems(5) True by (auto simp: nth_append less_Suc_eq)
      show "\<forall>j<mi. \<not> dbl_le mp ((pre @ [x]) ! j)"
        using Cons.prems(3,6) by (auto simp: nth_append)
    qed
    with True show ?thesis unfolding app by simp
  next
    case False
    have le: "dbl_le mp x" using False dbl_le_total [OF xn mpn] by blast
    have "argmax_loop xs (length (pre @ [x])) x (length pre) < length ((pre @ [x]) @ xs)
     \<and> (\<forall>j<length ((pre @ [x]) @ xs). dbl_le (((pre @ [x]) @ xs) ! j) (((pre @ [x]) @ xs) ! argmax_loop xs (length (pre @ [x])) x (length pre)))
     \<and> (\<forall>j<argmax_loop xs (length (pre @ [x])) x (length pre). \<not> dbl_le (((pre @ [x]) @ xs) ! argmax_loop xs (length (pre @ [x])) x (length pre)) (((pre @ [x]) @ xs) ! j))"
    proof (rule Cons.IH)
      show "NaN \<notin> set (pre @ [x])" using Cons.prems(1) xn by auto
      show "NaN \<notin> set xs" using Cons.prems(2) by auto
      show "length pre < length (pre @ [x])" by simp
      show "(pre @ [x]) ! length pre = x" by simp
      show "\<forall>j<length (pre @ [x]). dbl_le ((pre @ [x]) ! j) x"
        using Cons.prems(5) le dbl_le_refl [OF xn]
        by (auto simp: nth_append less_Suc_eq intro: dbl_le_trans)
      show "\<forall>j<length pre. \<not> dbl_le x ((pre @ [x]) ! j)"
        using Cons.prems(5) False by (auto simp: nth_append dest: dbl_le_trans)
    qed
    with False xn show ?thesis unfolding app by (simp add: isnan_def)
  qed
qed

lemma argmax_first:
  assumes "a \<noteq> []" "NaN \<notin> set a"
  shows "\<exists>r. argmax a = Inr r \<and> r < length a \<and> (\<forall>j<length a. dbl_le (a ! j) (a ! r))
     \<and> (\<forall>j<r. \<not> dbl_le (a ! r) (a ! j))"
proof -
  obtain x xs where a: "a = x # xs" using assms(1) by (cases a) auto
  have xn: "x \<noteq> NaN" using assms(2) a by auto
  have "argmax_loop xs (length [x]) x 0 < length ([x] @ xs)
     \<and> (\<forall>j<length ([x] @ xs). dbl_le (([x] @ xs) ! j) (([x] @ xs) ! argmax_loop xs (length [x]) x 0))
     \<and> (\<forall>j<argmax_loop xs (length [x]) x 0. \<not> dbl_le (([x] @ xs) ! argmax_loop xs (length [x]) x 0) (([x] @ xs) ! j))"
    by (rule argmax_loop_first) (use assms(2) a xn dbl_le_refl in auto)
  then show ?thesis using a xn by (simp add: argmax_def isnan_def)
qed




lemma col_get_nat: "i < col_length c \<Longrightarrow> col_get c (int i) = Inr (case c of StrCol xs \<Rightarrow> Str (xs ! i) | DblCol xs \<Rightarrow> Dbl (xs ! i))"
  by (cases c) (simp_all add: col_get_def Let_def)

section \<open>The parser: list comprehensions and the column loop\<close>

lemma collect_Inr_iff:
  "collect f xs = Inr ys \<longleftrightarrow> length ys = length xs \<and> (\<forall>i<length xs. f (xs ! i) = Inr (ys ! i))"
proof (induction xs arbitrary: ys)
  case Nil
  then show ?case by auto
next
  case (Cons x xs)
  show ?case
  proof (cases "f x")
    case (Inl e)
    then show ?thesis by auto
  next
    case (Inr y)
    show ?thesis
    proof (cases "collect f xs")
      case (Inl e)
      have "\<not> (length (tl ys) = length xs \<and> (\<forall>i<length xs. f (xs ! i) = Inr (tl ys ! i)))"
        using Cons.IH [of "tl ys"] Inl by simp
      then have "\<not> (length ys = length (x # xs) \<and> (\<forall>i<length (x # xs). f ((x # xs) ! i) = Inr (ys ! i)))"
        by (cases ys) auto
      then show ?thesis using Inr Inl by simp
    next
      case r: (Inr zs)
      have zs: "length zs = length xs \<and> (\<forall>i<length xs. f (xs ! i) = Inr (zs ! i))"
        using Cons.IH [of zs] r by simp
      show ?thesis
      proof
        assume "collect f (x # xs) = Inr ys"
        then have "ys = y # zs" using Inr r by simp
        then show "length ys = length (x # xs) \<and> (\<forall>i<length (x # xs). f ((x # xs) ! i) = Inr (ys ! i))"
          using zs Inr by (auto simp: nth_Cons')
      next
        assume a: "length ys = length (x # xs) \<and> (\<forall>i<length (x # xs). f ((x # xs) ! i) = Inr (ys ! i))"
        then obtain y' ys' where ys: "ys = y' # ys'" by (cases ys) auto
        have "y' = y" using a ys Inr by auto
        moreover have "length ys' = length xs \<and> (\<forall>i<length xs. f (xs ! i) = Inr (ys' ! i))"
          using a ys by auto
        then have "collect f xs = Inr ys'" using Cons.IH [of ys'] by simp
        ultimately show "collect f (x # xs) = Inr ys" using Inr ys by simp
      qed
    qed
  qed
qed

lemma collect_total:
  "(\<forall>x\<in>set xs. \<exists>y. f x = Inr y) \<Longrightarrow> \<exists>ys. collect f xs = Inr ys"
  by (induction xs) (auto split: sum.splits)

lemma collect_fails:
  "x \<in> set xs \<Longrightarrow> f x = Inl e \<Longrightarrow> \<exists>e'. collect f xs = Inl e'"
  by (induction xs) (auto split: sum.splits)

lemma collect_cong:
  "length xs = length ys \<Longrightarrow> (\<forall>i<length xs. f (xs ! i) = g (ys ! i)) \<Longrightarrow> collect f xs = collect g ys"
proof (induction xs arbitrary: ys)
  case Nil
  then show ?case by simp
next
  case (Cons x xs)
  then obtain y ys' where ys: "ys = y # ys'" by (cases ys) auto
  have "f x = g y" using Cons.prems(2) ys by auto
  moreover have "collect f xs = collect g ys'"
    using Cons.prems ys by (intro Cons.IH) auto
  ultimately show ?case using ys by (simp split: sum.splits)
qed

lemma read_columns_step:
  "read_columns L ls num (name # rest) data =
     (case column_at L ls num name of Inl e \<Rightarrow> Inl e
      | Inr c \<Rightarrow> read_columns L ls (Suc num) rest (data(name \<mapsto> c)))"
  by (simp add: column_at_def split: sum.splits)

lemma read_columns_dom:
  "read_columns L ls num ns data = Inr t \<Longrightarrow> dom t = dom data \<union> set ns"
proof (induction ns arbitrary: num data)
  case Nil
  then show ?case by simp
next
  case (Cons n ns)
  from Cons.prems obtain c where "read_columns L ls (Suc num) ns (data(n \<mapsto> c)) = Inr t"
    by (auto simp: read_columns_step simp del: read_columns.simps split: sum.splits)
  from Cons.IH [OF this] show ?case by auto
qed

lemma read_columns_other:
  "read_columns L ls num ns data = Inr t \<Longrightarrow> n \<notin> set ns \<Longrightarrow> t n = data n"
proof (induction ns arbitrary: num data)
  case Nil
  then show ?case by simp
next
  case (Cons m ns)
  from Cons.prems(1) obtain c where "read_columns L ls (Suc num) ns (data(m \<mapsto> c)) = Inr t"
    by (auto simp: read_columns_step simp del: read_columns.simps split: sum.splits)
  from Cons.IH [OF this] Cons.prems(2) show ?case by auto
qed

lemma read_columns_member:
  "read_columns L ls num ns data = Inr t \<Longrightarrow> n \<in> set ns \<Longrightarrow>
   \<exists>k<length ns. ns ! k = n \<and> (\<exists>c. column_at L ls (num + k) n = Inr c \<and> t n = Some c)"
proof (induction ns arbitrary: num data)
  case Nil
  then show ?case by simp
next
  case (Cons m ns)
  from Cons.prems(1) obtain c where c: "column_at L ls num m = Inr c"
    and rest: "read_columns L ls (Suc num) ns (data(m \<mapsto> c)) = Inr t"
    by (auto simp: read_columns_step simp del: read_columns.simps split: sum.splits)
  show ?case
  proof (cases "n \<in> set ns")
    case True
    from Cons.IH [OF rest True] obtain k where "k < length ns" "ns ! k = n"
      "\<exists>c. column_at L ls (Suc num + k) n = Inr c \<and> t n = Some c" by blast
    then have "Suc k < length (m # ns) \<and> (m # ns) ! Suc k = n
        \<and> (\<exists>c. column_at L ls (num + Suc k) n = Inr c \<and> t n = Some c)" by simp
    then show ?thesis by blast
  next
    case False
    then have nm: "n = m" using Cons.prems(2) by simp
    have "t n = Some c" using read_columns_other [OF rest False] nm by simp
    then have "0 < length (m # ns) \<and> (m # ns) ! 0 = n
        \<and> (\<exists>c. column_at L ls (num + 0) n = Inr c \<and> t n = Some c)" using c nm by simp
    then show ?thesis by blast
  qed
qed

lemma read_columns_nth:
  "read_columns L ls num ns data = Inr t \<Longrightarrow> distinct ns \<Longrightarrow> k < length ns \<Longrightarrow>
   \<exists>c. column_at L ls (num + k) (ns ! k) = Inr c \<and> t (ns ! k) = Some c"
proof -
  assume a: "read_columns L ls num ns data = Inr t" "distinct ns" "k < length ns"
  from read_columns_member [OF a(1), of "ns ! k"] a(3) obtain k' where
    k': "k' < length ns" "ns ! k' = ns ! k" "\<exists>c. column_at L ls (num + k') (ns ! k) = Inr c \<and> t (ns ! k) = Some c"
    by auto
  have "k' = k" using a(2,3) k'(1,2) by (simp add: nth_eq_iff_index_eq)
  then show ?thesis using k'(3) by simp
qed

lemma read_columns_total:
  "(\<forall>k<length ns. \<exists>c. column_at L ls (num + k) (ns ! k) = Inr c) \<Longrightarrow>
   \<exists>t. read_columns L ls num ns data = Inr t"
proof (induction ns arbitrary: num data)
  case Nil
  then show ?case by simp
next
  case (Cons m ns)
  from Cons.prems obtain c where c: "column_at L ls num m = Inr c" by fastforce
  have "\<forall>k<length ns. \<exists>c. column_at L ls (Suc num + k) (ns ! k) = Inr c"
  proof (intro allI impI)
    fix k assume "k < length ns"
    then have "\<exists>c. column_at L ls (num + Suc k) ((m # ns) ! Suc k) = Inr c"
      using Cons.prems by (metis Suc_less_eq length_Cons)
    then show "\<exists>c. column_at L ls (Suc num + k) (ns ! k) = Inr c" by simp
  qed
  from Cons.IH [OF this] show ?case using c
    by (simp add: read_columns_step del: read_columns.simps)
qed

lemma read_columns_fails:
  "k < length ns \<Longrightarrow> column_at L ls (num + k) (ns ! k) = Inl e \<Longrightarrow>
   \<exists>e'. read_columns L ls num ns data = Inl e'"
proof (induction ns arbitrary: num data k)
  case Nil
  then show ?case by simp
next
  case (Cons m ns)
  show ?case
  proof (cases k)
    case 0
    then show ?thesis using Cons.prems
      by (simp add: read_columns_step del: read_columns.simps)
  next
    case (Suc k')
    then have "k' < length ns" "column_at L ls (Suc num + k') (ns ! k') = Inl e"
      using Cons.prems by auto
    from Cons.IH [OF this] show ?thesis
      by (auto simp: read_columns_step simp del: read_columns.simps split: sum.splits)
  qed
qed

lemma column_at_length:
  "column_at L ls num name = Inr c \<Longrightarrow> col_length c = length ls"
  by (auto simp: column_at_def col_length_def collect_Inr_iff np_array_bytes_def
      np_array_double_def split: if_splits sum.splits)

lemma token_Inr_iff: "token num l = Inr s \<longleftrightarrow> num < length (tokens l) \<and> s = tokens l ! num"
  by (auto simp: token_def Let_def)

lemma double_token_Inr_iff:
  "double_token L num l = Inr d \<longleftrightarrow> num < length (tokens l) \<and> np_double L (tokens l ! num) = Some d"
  by (auto simp: double_token_def token_def Let_def split: option.splits)

lemma column_at_total:
  assumes "\<forall>l\<in>set ls. num < length (tokens l)"
    and "\<not> is_opaque name \<longrightarrow> (\<forall>l\<in>set ls. np_double L (tokens l ! num) \<noteq> None)"
  shows "\<exists>c. column_at L ls num name = Inr c"
proof (cases "is_opaque name")
  case True
  have "\<exists>ys. collect (token num) ls = Inr ys"
    by (rule collect_total) (use assms(1) in \<open>auto simp: token_def Let_def\<close>)
  with True show ?thesis by (auto simp: column_at_def)
next
  case False
  have "\<exists>ys. collect (double_token L num) ls = Inr ys"
    by (rule collect_total) (use assms False in \<open>auto simp: double_token_def token_def Let_def split: option.splits\<close>)
  with False show ?thesis by (auto simp: column_at_def)
qed

lemma column_at_short:
  assumes "l \<in> set ls" "\<not> num < length (tokens l)"
  shows "\<exists>e. column_at L ls num name = Inl e"
proof -
  have 1: "token num l = Inl IndexError" using assms(2) by (simp add: token_def Let_def)
  have 2: "double_token L num l = Inl IndexError" using 1 by (simp add: double_token_def)
  from collect_fails [of l ls "token num", OF assms(1) 1]
    collect_fails [of l ls "double_token L num", OF assms(1) 2]
  show ?thesis by (auto simp: column_at_def)
qed

lemma column_at_bad_token:
  assumes "l \<in> set ls" "\<not> is_opaque name" "num < length (tokens l)" "np_double L (tokens l ! num) = None"
  shows "\<exists>e. column_at L ls num name = Inl e"
proof -
  have "double_token L num l = Inl ValueError"
    using assms(3,4) by (simp add: double_token_def token_def Let_def)
  from collect_fails [of l ls "double_token L num", OF assms(1) this] assms(2)
  show ?thesis by (auto simp: column_at_def)
qed

lemma token_take:
  assumes "take m (tokens l) = take m (tokens l')" "num < m"
  shows "token num l = token num l'"
proof -
  have "length (take m (tokens l)) = length (take m (tokens l'))" using assms(1) by simp
  then have len: "num < length (tokens l) \<longleftrightarrow> num < length (tokens l')"
    using assms(2) by auto
  have "take m (tokens l) ! num = take m (tokens l') ! num" using assms(1) by simp
  then have "tokens l ! num = tokens l' ! num" using assms(2) by simp
  with len show ?thesis by (simp add: token_def Let_def)
qed

lemma column_at_take:
  assumes "length ls = length ls'"
    and "\<forall>i<length ls. take m (tokens (ls ! i)) = take m (tokens (ls' ! i))" and "num < m"
  shows "column_at L ls num name = column_at L ls' num name"
proof -
  have t: "\<forall>i<length ls. token num (ls ! i) = token num (ls' ! i)"
    using assms(2,3) token_take by blast
  then have d: "\<forall>i<length ls. double_token L num (ls ! i) = double_token L num (ls' ! i)"
    by (simp add: double_token_def)
  have "collect (token num) ls = collect (token num) ls'"
    using assms(1) t by (rule collect_cong)
  moreover have "collect (double_token L num) ls = collect (double_token L num) ls'"
    using assms(1) d by (rule collect_cong)
  ultimately show ?thesis by (simp add: column_at_def)
qed

lemma read_columns_take:
  assumes "length ls = length ls'"
    and "\<forall>i<length ls. take (num + length ns) (tokens (ls ! i)) = take (num + length ns) (tokens (ls' ! i))"
  shows "read_columns L ls num ns data = read_columns L ls' num ns data"
  using assms(2)
proof (induction ns arbitrary: num data)
  case Nil
  then show ?case by simp
next
  case (Cons n ns)
  have c: "column_at L ls num n = column_at L ls' num n"
    by (rule column_at_take [OF assms(1), of "num + length (n # ns)"]) (use Cons.prems in auto)
  have "\<And>d. read_columns L ls (Suc num) ns d = read_columns L ls' (Suc num) ns d"
    by (rule Cons.IH) (use Cons.prems in auto)
  with c show ?case by (simp add: read_columns_step del: read_columns.simps split: sum.splits)
qed

lemma col_get_last: "col_get c (- 1) = col_get c (int (col_length c) - 1)"
  by (simp add: col_get_def Let_def)

lemmas demo_simps = demo_schema_def demo_lib_def tokens_def split_def strip_def is_space_def
  is_opaque_def opaque_names_def lower_def lower_char_def np_array_bytes_def
  np_array_double_def rstrip_nul_def

lemma demo_parse_two:
  "readfile demo_lib [''f'' \<mapsto> [''Time 4RT700T 4RT700T_0 Pitch Roll'',
       ''2012:001 1.0 3.0 5.0 1.0'', ''2012:002 5.0 inf nan 3.0'']] ''f'' demo_schema
   = Inr [''Time'' \<mapsto> StrCol [''2012:001'', ''2012:002''], ''4RT700T'' \<mapsto> DblCol [Fin 1, Fin 5],
          ''4RT700T_0'' \<mapsto> DblCol [Fin 3, PosInf], ''Pitch'' \<mapsto> DblCol [Fin 5, NaN],
          ''Roll'' \<mapsto> DblCol [Fin 1, Fin 3]]"
  by (simp add: readfile_def token_def double_token_def demo_simps)

lemma demo_file_two:
  "[''f'' \<mapsto> [''Time 4RT700T 4RT700T_0 Pitch Roll'',
       ''2012:001 1.0 3.0 5.0 1.0'', ''2012:002 5.0 inf nan 3.0'']] ''f''
   = Some (''Time 4RT700T 4RT700T_0 Pitch Roll'' #
           [''2012:001 1.0 3.0 5.0 1.0'', ''2012:002 5.0 inf nan 3.0''])"
  by simp

lemma read_columns_last:
  "read_columns L ls num ns data = Inr t \<Longrightarrow> n \<in> set ns \<Longrightarrow>
   \<exists>k<length ns. ns ! k = n \<and> (\<forall>k'<length ns. ns ! k' = n \<longrightarrow> k' \<le> k)
     \<and> (\<exists>c. column_at L ls (num + k) n = Inr c \<and> t n = Some c)"
proof (induction ns arbitrary: num data)
  case Nil
  then show ?case by simp
next
  case (Cons m ns)
  from Cons.prems(1) obtain c where c: "column_at L ls num m = Inr c"
    and rest: "read_columns L ls (Suc num) ns (data(m \<mapsto> c)) = Inr t"
    by (auto simp: read_columns_step simp del: read_columns.simps split: sum.splits)
  show ?case
  proof (cases "n \<in> set ns")
    case True
    from Cons.IH [OF rest True] obtain k where k: "k < length ns" "ns ! k = n"
      "\<forall>k'<length ns. ns ! k' = n \<longrightarrow> k' \<le> k"
      "\<exists>c. column_at L ls (Suc num + k) n = Inr c \<and> t n = Some c" by blast
    have "\<forall>k'<length (m # ns). (m # ns) ! k' = n \<longrightarrow> k' \<le> Suc k"
    proof (intro allI impI)
      fix k' assume "k' < length (m # ns)" "(m # ns) ! k' = n"
      then show "k' \<le> Suc k" using k(3) by (cases k') auto
    qed
    with k have "Suc k < length (m # ns) \<and> (m # ns) ! Suc k = n
        \<and> (\<forall>k'<length (m # ns). (m # ns) ! k' = n \<longrightarrow> k' \<le> Suc k)
        \<and> (\<exists>c. column_at L ls (num + Suc k) n = Inr c \<and> t n = Some c)" by simp
    then show ?thesis by blast
  next
    case False
    then have nm: "n = m" using Cons.prems(2) by simp
    have tn: "t n = Some c" using read_columns_other [OF rest False] nm by simp
    have "\<forall>k'<length (m # ns). (m # ns) ! k' = n \<longrightarrow> k' \<le> 0"
    proof (intro allI impI)
      fix k' assume "k' < length (m # ns)" "(m # ns) ! k' = n"
      then show "k' \<le> 0" using False by (cases k') auto
    qed
    with tn have "0 < length (m # ns) \<and> (m # ns) ! 0 = n
        \<and> (\<forall>k'<length (m # ns). (m # ns) ! k' = n \<longrightarrow> k' \<le> 0)
        \<and> (\<exists>c. column_at L ls (num + 0) n = Inr c \<and> t n = Some c)" using c nm by simp
    then show ?thesis by blast
  qed
qed

lemma column_at_opaque:
  assumes "is_opaque name" "column_at L ls num name = Inr c"
  shows "c = np_array_bytes (map (\<lambda>l. tokens l ! num) ls) \<and> (\<forall>l\<in>set ls. num < length (tokens l))"
proof -
  from assms obtain xs where xs: "collect (token num) ls = Inr xs" "c = np_array_bytes xs"
    by (auto simp: column_at_def split: sum.splits)
  have len: "length xs = length ls" and el: "\<forall>i<length ls. token num (ls ! i) = Inr (xs ! i)"
    using xs(1) by (simp_all add: collect_Inr_iff)
  have "xs = map (\<lambda>l. tokens l ! num) ls"
    using len el by (intro nth_equalityI) (auto simp: token_Inr_iff)
  moreover have "\<forall>l\<in>set ls. num < length (tokens l)"
    using el by (auto simp: in_set_conv_nth token_Inr_iff)
  ultimately show ?thesis using xs(2) by simp
qed

lemma column_at_numeric:
  assumes "\<not> is_opaque name" "column_at L ls num name = Inr c"
  shows "\<exists>ds. c = DblCol ds \<and> length ds = length ls
     \<and> (\<forall>i<length ls. num < length (tokens (ls ! i))
           \<and> np_double L (tokens (ls ! i) ! num) = Some (ds ! i))"
proof -
  from assms obtain ds where ds: "collect (double_token L num) ls = Inr ds" "c = DblCol ds"
    by (auto simp: column_at_def np_array_double_def split: sum.splits)
  have "length ds = length ls
      \<and> (\<forall>i<length ls. num < length (tokens (ls ! i))
            \<and> np_double L (tokens (ls ! i) ! num) = Some (ds ! i))"
    using ds(1) by (auto simp: collect_Inr_iff double_token_Inr_iff)
  with ds(2) show ?thesis by blast
qed

lemma readfile_well_formed:
  assumes "fs filename = Some (header # datalines)" "well_formed L sub datalines"
  shows "\<exists>t. readfile L fs filename sub = Inr t
     \<and> read_columns L datalines 0 (names sub) Map.empty = Inr t"
proof -
  have "\<forall>k<length (names sub). \<exists>c. column_at L datalines (0 + k) (names sub ! k) = Inr c"
  proof (intro allI impI)
    fix k assume k: "k < length (names sub)"
    have "\<exists>c. column_at L datalines k (names sub ! k) = Inr c"
      by (rule column_at_total) (use assms(2) k in \<open>fastforce simp: well_formed_def\<close>)+
    then show "\<exists>c. column_at L datalines (0 + k) (names sub ! k) = Inr c" by simp
  qed
  from read_columns_total [OF this]
  obtain t where "read_columns L datalines 0 (names sub) Map.empty = Inr t" by blast
  then show ?thesis using assms(1) by (simp add: readfile_def)
qed

lemma rstrip_nul_id: "CHR 0x00 \<notin> set s \<Longrightarrow> rstrip_nul s = s"
proof -
  assume a: "CHR 0x00 \<notin> set s"
  have "dropWhile (\<lambda>c. c = CHR 0x00) (rev s) = rev s"
    using a by (cases "rev s") (auto simp: rev_eq_Cons_iff)
  then show ?thesis by (simp add: rstrip_nul_def)
qed

lemma registry_distinct: "headerinfo_init m = Some sub \<Longrightarrow> distinct (names sub)"
  by (auto simp: headerinfo_init_def headerinfo_list_def split: if_splits)

section \<open>C5: data lines with too few or too many tokens\<close>

text \<open>
  Claim C5, as amended. \<^verbatim>\<open>_readfile\<close> raises when some data line has fewer tokens than
  the schema has column names. It does not count the tokens of a line: the tokens beyond
  the schema's last position are never read, so two files whose data lines agree on
  their first \<open>length (names sub)\<close> tokens give the same result, error or table.
\<close>

theorem C5_short_line_fails_surplus_ignored:
  assumes "fs filename = Some (header # datalines)"
  shows "((\<exists>l\<in>set datalines. length (tokens l) < length (names sub))
            \<longrightarrow> (\<exists>e. readfile L fs filename sub = Inl e))
     \<and> (\<forall>datalines'. map (take (length (names sub)) \<circ> tokens) datalines'
                        = map (take (length (names sub)) \<circ> tokens) datalines
            \<longrightarrow> readfile L (fs(filename \<mapsto> header # datalines')) filename sub
                = readfile L fs filename sub)"
proof (intro conjI impI allI)
  have rf: "readfile L fs filename sub = read_columns L datalines 0 (names sub) Map.empty"
    using assms by (simp add: readfile_def)
  assume "\<exists>l\<in>set datalines. length (tokens l) < length (names sub)"
  then obtain l where l: "l \<in> set datalines" "length (tokens l) < length (names sub)" by blast
  have "\<not> length (tokens l) < length (tokens l)" by simp
  from column_at_short [OF l(1) this]
  obtain e where "column_at L datalines (0 + length (tokens l)) (names sub ! length (tokens l)) = Inl e"
    by auto
  from read_columns_fails [OF l(2) this]
  show "\<exists>e. readfile L fs filename sub = Inl e"
    by (simp add: rf)
next
  have rf: "readfile L fs filename sub = read_columns L datalines 0 (names sub) Map.empty"
    using assms by (simp add: readfile_def)
  fix datalines'
  assume m: "map (take (length (names sub)) \<circ> tokens) datalines'
      = map (take (length (names sub)) \<circ> tokens) datalines"
  have len: "length datalines' = length datalines" using m by (rule map_eq_imp_length_eq)
  have "\<forall>i<length datalines'. take (0 + length (names sub)) (tokens (datalines' ! i))
      = take (0 + length (names sub)) (tokens (datalines ! i))"
  proof (intro allI impI)
    fix i assume i: "i < length datalines'"
    have "map (take (length (names sub)) \<circ> tokens) datalines' ! i
        = map (take (length (names sub)) \<circ> tokens) datalines ! i" using m by simp
    then show "take (0 + length (names sub)) (tokens (datalines' ! i))
      = take (0 + length (names sub)) (tokens (datalines ! i))" using i len by simp
  qed
  from read_columns_take [OF len this]
  show "readfile L (fs(filename \<mapsto> header # datalines')) filename sub = readfile L fs filename sub"
    by (simp add: rf) (simp add: readfile_def)
qed

text \<open>
  The theorem on a data line of four tokens under the five names of \<^verbatim>\<open>oba\<close>
  (IndexError), and on a line carrying two surplus tokens.
\<close>

theorem C5_short_line_fails_surplus_ignored_witness:
  "readfile demo_lib [''f'' \<mapsto> [''Time 4RT700T 4RT700T_0 Pitch Roll'', ''2012:001 1.0 3.0 5.0'']]
      ''f'' demo_schema = Inl IndexError
   \<and> readfile demo_lib ([''f'' \<mapsto> [''header'', ''2012:001 1.0 3.0 5.0 1.0'']]
         (''f'' \<mapsto> [''header'', ''2012:001 1.0 3.0 5.0 1.0 5.0 abc''])) ''f'' demo_schema
     = readfile demo_lib [''f'' \<mapsto> [''header'', ''2012:001 1.0 3.0 5.0 1.0'']] ''f'' demo_schema"
  using C5_short_line_fails_surplus_ignored [of "[''f'' \<mapsto> [''Time 4RT700T 4RT700T_0 Pitch Roll'', ''2012:001 1.0 3.0 5.0'']]"
      "''f''" "''Time 4RT700T 4RT700T_0 Pitch Roll''" "[''2012:001 1.0 3.0 5.0'']" demo_schema demo_lib]
    C5_short_line_fails_surplus_ignored [of "[''f'' \<mapsto> [''header'', ''2012:001 1.0 3.0 5.0 1.0'']]"
      "''f''" "''header''" "[''2012:001 1.0 3.0 5.0 1.0'']" demo_schema demo_lib]
  by (simp add: readfile_def token_def double_token_def demo_simps)

text \<open>
  Claim C5 as stated fails on a data line of six tokens under the five names of
  \<^verbatim>\<open>oba\<close>: \<^verbatim>\<open>_readfile\<close> returns a table, built from the first five tokens.
\<close>

theorem C5_counterexample:
  "readfile demo_lib [''f'' \<mapsto> [''Time 4RT700T 4RT700T_0 Pitch Roll'', ''2012:001 1.0 3.0 5.0 1.0 5.0'']]
      ''f'' demo_schema
   = Inr [''Time'' \<mapsto> StrCol [''2012:001''], ''4RT700T'' \<mapsto> DblCol [Fin 1],
          ''4RT700T_0'' \<mapsto> DblCol [Fin 3], ''Pitch'' \<mapsto> DblCol [Fin 5], ''Roll'' \<mapsto> DblCol [Fin 1]]"
  by (simp add: readfile_def token_def double_token_def demo_simps)

section \<open>C6: the shape of the parsed table\<close>

text \<open>
  Claim C6, as amended. For every input file with at least one line whose data lines
  each have at least as many tokens as the schema has names, and whose tokens at the
  positions of the numeric columns are accepted by \<^verbatim>\<open>np.double\<close>, \<^verbatim>\<open>_readfile\<close>
  returns a table whose keys are exactly the schema's names, every column of which has
  as many elements as the file has lines minus one; the first line is discarded whatever
  it holds.
\<close>

theorem C6_readfile_shape:
  assumes "fs filename = Some (header # datalines)"
    and "\<forall>l\<in>set datalines. length (names sub) \<le> length (tokens l)"
    and "\<forall>l\<in>set datalines. \<forall>k<length (names sub).
           \<not> is_opaque (names sub ! k) \<longrightarrow> np_double L (tokens l ! k) \<noteq> None"
  shows "\<exists>t. readfile L fs filename sub = Inr t \<and> dom t = set (names sub)
     \<and> (\<forall>c\<in>set (names sub). \<exists>col. t c = Some col \<and> col_length col = length (header # datalines) - 1)
     \<and> (\<forall>header'. readfile L (fs(filename \<mapsto> header' # datalines)) filename sub = Inr t)"
proof -
  have "\<forall>k<length (names sub). \<exists>c. column_at L datalines (0 + k) (names sub ! k) = Inr c"
  proof (intro allI impI)
    fix k assume k: "k < length (names sub)"
    have "\<exists>c. column_at L datalines k (names sub ! k) = Inr c"
      by (rule column_at_total) (use assms(2,3) k in fastforce)+
    then show "\<exists>c. column_at L datalines (0 + k) (names sub ! k) = Inr c" by simp
  qed
  from read_columns_total [OF this]
  obtain t where t: "read_columns L datalines 0 (names sub) Map.empty = Inr t" by blast
  have 1: "readfile L fs filename sub = Inr t" using t assms(1) by (simp add: readfile_def)
  have 2: "dom t = set (names sub)" using read_columns_dom [OF t] by simp
  have 3: "\<forall>c\<in>set (names sub). \<exists>col. t c = Some col \<and> col_length col = length (header # datalines) - 1"
  proof
    fix c assume "c \<in> set (names sub)"
    from read_columns_member [OF t this] obtain k col where
      "column_at L datalines (0 + k) c = Inr col" "t c = Some col" by blast
    then show "\<exists>col. t c = Some col \<and> col_length col = length (header # datalines) - 1"
      using column_at_length by fastforce
  qed
  have 4: "\<forall>header'. readfile L (fs(filename \<mapsto> header' # datalines)) filename sub = Inr t"
    using t by (simp add: readfile_def)
  from 1 2 3 4 show ?thesis by blast
qed

text \<open>The theorem on a file of a header and two data lines.\<close>

theorem C6_readfile_shape_witness:
  "\<exists>t. readfile demo_lib [''f'' \<mapsto> [''Time 4RT700T 4RT700T_0 Pitch Roll'',
            ''2012:001 1.0 3.0 5.0 1.0'', ''2012:002 5.0 inf nan 3.0'']] ''f'' demo_schema = Inr t
     \<and> dom t = set (names demo_schema)
     \<and> (\<forall>c\<in>set (names demo_schema). \<exists>col. t c = Some col
           \<and> col_length col = length [''Time 4RT700T 4RT700T_0 Pitch Roll'',
               ''2012:001 1.0 3.0 5.0 1.0'', ''2012:002 5.0 inf nan 3.0''] - 1)
     \<and> (\<forall>header'. readfile demo_lib ([''f'' \<mapsto> [''Time 4RT700T 4RT700T_0 Pitch Roll'',
            ''2012:001 1.0 3.0 5.0 1.0'', ''2012:002 5.0 inf nan 3.0'']]
           (''f'' \<mapsto> [header', ''2012:001 1.0 3.0 5.0 1.0'', ''2012:002 5.0 inf nan 3.0'']))
           ''f'' demo_schema = Inr t)"
proof -
  have 1: "[''f'' \<mapsto> [''Time 4RT700T 4RT700T_0 Pitch Roll'',
            ''2012:001 1.0 3.0 5.0 1.0'', ''2012:002 5.0 inf nan 3.0'']] ''f''
      = Some (''Time 4RT700T 4RT700T_0 Pitch Roll'' # [''2012:001 1.0 3.0 5.0 1.0'', ''2012:002 5.0 inf nan 3.0''])"
    by simp
  have 2: "\<forall>l\<in>set [''2012:001 1.0 3.0 5.0 1.0'', ''2012:002 5.0 inf nan 3.0''].
      length (names demo_schema) \<le> length (tokens l)"
    by (simp add: demo_simps)
  have 3: "\<forall>l\<in>set [''2012:001 1.0 3.0 5.0 1.0'', ''2012:002 5.0 inf nan 3.0''].
      \<forall>k<length (names demo_schema). \<not> is_opaque (names demo_schema ! k)
         \<longrightarrow> np_double demo_lib (tokens l ! k) \<noteq> None"
    by (simp add: demo_simps less_Suc_eq)
  from C6_readfile_shape [where fs = "[''f'' \<mapsto> [''Time 4RT700T 4RT700T_0 Pitch Roll'',
            ''2012:001 1.0 3.0 5.0 1.0'', ''2012:002 5.0 inf nan 3.0'']]" and filename = "''f''", OF 1 2 3]
  show ?thesis by simp
qed

text \<open>
  Claim C6 as stated fails on a file with two lines whose data line holds the token
  \<^verbatim>\<open>abc\<close> in a numeric column: \<^verbatim>\<open>_readfile\<close> raises ValueError and returns no table.
\<close>

theorem C6_counterexample:
  "readfile demo_lib [''f'' \<mapsto> [''Time 4RT700T 4RT700T_0 Pitch Roll'', ''2012:001 1.0 abc 5.0 1.0'']]
      ''f'' demo_schema = Inl ValueError"
  by (simp add: readfile_def token_def double_token_def demo_simps)

section \<open>C7: which columns stay strings\<close>

text \<open>
  Claim C7, as amended. A name is kept as a column of byte strings exactly when its
  lower-case form is the lower-case form of one of Time, SI, Within_Limit, 15V, 24V, HRCI,
  HRCS, Shield, 5V_A, 5V_B. For every schema and every input file that is well formed for
  it, \<^verbatim>\<open>_readfile\<close> returns a table in which the column of such a name is never made
  of doubles parsed from its tokens: it is the numpy array of the tokens at the name's
  position, whose elements are the tokens without their trailing NUL bytes (the raw
  tokens when none holds a NUL byte) if the file has a data line, and which is the empty
  array of doubles if it has none; and in which the column of any other name holds the
  doubles \<^verbatim>\<open>np.double\<close> makes of the tokens at its position.
\<close>

theorem C7_column_type_policy:
  assumes "fs filename = Some (header # datalines)" and "well_formed L sub datalines"
    and "name \<in> set (names sub)"
  shows "(is_opaque name \<longleftrightarrow> lower name \<in> set (map lower
            [''Time'', ''SI'', ''Within_Limit'', ''15V'', ''24V'', ''HRCI'', ''HRCS'', ''Shield'',
             ''5V_A'', ''5V_B'']))
     \<and> (\<exists>t num. readfile L fs filename sub = Inr t
          \<and> num < length (names sub) \<and> names sub ! num = name
          \<and> (if is_opaque name
             then t name = Some (np_array_bytes (map (\<lambda>l. tokens l ! num) datalines))
               \<and> (datalines = [] \<longrightarrow> t name = Some (DblCol []))
               \<and> (datalines \<noteq> [] \<longrightarrow>
                    t name = Some (StrCol (map (\<lambda>l. rstrip_nul (tokens l ! num)) datalines)))
               \<and> (datalines \<noteq> [] \<and> (\<forall>l\<in>set datalines. CHR 0x00 \<notin> set (tokens l ! num)) \<longrightarrow>
                    t name = Some (StrCol (map (\<lambda>l. tokens l ! num) datalines)))
             else \<exists>ds. t name = Some (DblCol ds) \<and> length ds = length datalines
                    \<and> (\<forall>i<length datalines.
                          np_double L (tokens (datalines ! i) ! num) = Some (ds ! i))))"
proof
  show "is_opaque name \<longleftrightarrow> lower name \<in> set (map lower
            [''Time'', ''SI'', ''Within_Limit'', ''15V'', ''24V'', ''HRCI'', ''HRCS'', ''Shield'',
             ''5V_A'', ''5V_B''])"
    by (simp add: is_opaque_def opaque_names_def lower_def lower_char_def)
next
  from readfile_well_formed [where fs = fs and filename = filename, OF assms(1,2)]
  obtain t where t: "readfile L fs filename sub = Inr t"
    and rc: "read_columns L datalines 0 (names sub) Map.empty = Inr t" by blast
  from read_columns_member [OF rc assms(3)] obtain num c where
    num: "num < length (names sub)" "names sub ! num = name"
    and c: "column_at L datalines num name = Inr c" "t name = Some c" by auto
  have "if is_opaque name
        then t name = Some (np_array_bytes (map (\<lambda>l. tokens l ! num) datalines))
          \<and> (datalines = [] \<longrightarrow> t name = Some (DblCol []))
          \<and> (datalines \<noteq> [] \<longrightarrow>
               t name = Some (StrCol (map (\<lambda>l. rstrip_nul (tokens l ! num)) datalines)))
          \<and> (datalines \<noteq> [] \<and> (\<forall>l\<in>set datalines. CHR 0x00 \<notin> set (tokens l ! num)) \<longrightarrow>
               t name = Some (StrCol (map (\<lambda>l. tokens l ! num) datalines)))
        else \<exists>ds. t name = Some (DblCol ds) \<and> length ds = length datalines
               \<and> (\<forall>i<length datalines. np_double L (tokens (datalines ! i) ! num) = Some (ds ! i))"
  proof (cases "is_opaque name")
    case True
    have tn: "t name = Some (np_array_bytes (map (\<lambda>l. tokens l ! num) datalines))"
      using column_at_opaque [OF True c(1)] c(2) by simp
    have raw: "(\<forall>l\<in>set datalines. CHR 0x00 \<notin> set (tokens l ! num)) \<Longrightarrow>
        map (\<lambda>l. rstrip_nul (tokens l ! num)) datalines = map (\<lambda>l. tokens l ! num) datalines"
      by (simp add: rstrip_nul_id)
    show ?thesis using True tn raw by (auto simp: np_array_bytes_def o_def)
  next
    case False
    from column_at_numeric [OF False c(1)] c(2) False show ?thesis by auto
  qed
  with t num show "\<exists>t num. readfile L fs filename sub = Inr t
          \<and> num < length (names sub) \<and> names sub ! num = name
          \<and> (if is_opaque name
             then t name = Some (np_array_bytes (map (\<lambda>l. tokens l ! num) datalines))
               \<and> (datalines = [] \<longrightarrow> t name = Some (DblCol []))
               \<and> (datalines \<noteq> [] \<longrightarrow>
                    t name = Some (StrCol (map (\<lambda>l. rstrip_nul (tokens l ! num)) datalines)))
               \<and> (datalines \<noteq> [] \<and> (\<forall>l\<in>set datalines. CHR 0x00 \<notin> set (tokens l ! num)) \<longrightarrow>
                    t name = Some (StrCol (map (\<lambda>l. tokens l ! num) datalines)))
             else \<exists>ds. t name = Some (DblCol ds) \<and> length ds = length datalines
                    \<and> (\<forall>i<length datalines.
                          np_double L (tokens (datalines ! i) ! num) = Some (ds ! i)))"
    by blast
qed

text \<open>
  The theorem on the string column Time and on the numeric column Pitch of a file with
  two data lines.
\<close>

theorem C7_column_type_policy_witness:
  "(\<exists>t num. readfile demo_lib [''f'' \<mapsto> [''Time 4RT700T 4RT700T_0 Pitch Roll'',
         ''2012:001 1.0 3.0 5.0 1.0'', ''2012:002 5.0 inf nan 3.0'']] ''f'' demo_schema = Inr t
      \<and> num < length (names demo_schema) \<and> names demo_schema ! num = ''Time''
      \<and> t ''Time'' = Some (StrCol [''2012:001'', ''2012:002'']))
   \<and> (\<exists>t num. readfile demo_lib [''f'' \<mapsto> [''Time 4RT700T 4RT700T_0 Pitch Roll'',
         ''2012:001 1.0 3.0 5.0 1.0'', ''2012:002 5.0 inf nan 3.0'']] ''f'' demo_schema = Inr t
      \<and> num < length (names demo_schema) \<and> names demo_schema ! num = ''Pitch''
      \<and> t ''Pitch'' = Some (DblCol [Fin 5, NaN]))"
proof -
  have wf: "well_formed demo_lib demo_schema
      [''2012:001 1.0 3.0 5.0 1.0'', ''2012:002 5.0 inf nan 3.0'']"
    by (simp add: well_formed_def demo_simps less_Suc_eq)
  have 1: "''Time'' \<in> set (names demo_schema)" and 2: "''Pitch'' \<in> set (names demo_schema)"
    by (simp_all add: demo_schema_def)
  have o: "is_opaque ''Time''" "\<not> is_opaque ''Pitch''"
    by (simp_all add: is_opaque_def opaque_names_def lower_def lower_char_def)
  from C7_column_type_policy [where fs = "[''f'' \<mapsto> [''Time 4RT700T 4RT700T_0 Pitch Roll'',
       ''2012:001 1.0 3.0 5.0 1.0'', ''2012:002 5.0 inf nan 3.0'']]" and filename = "''f''",
      OF demo_file_two wf 1]
  obtain t num where a: "readfile demo_lib [''f'' \<mapsto> [''Time 4RT700T 4RT700T_0 Pitch Roll'',
         ''2012:001 1.0 3.0 5.0 1.0'', ''2012:002 5.0 inf nan 3.0'']] ''f'' demo_schema = Inr t"
       "num < length (names demo_schema)" "names demo_schema ! num = ''Time''"
       "t ''Time'' = Some (np_array_bytes (map (\<lambda>l. tokens l ! num)
          [''2012:001 1.0 3.0 5.0 1.0'', ''2012:002 5.0 inf nan 3.0'']))"
    using o(1) by auto
  have "num = 0" using a(2,3) by (auto simp: demo_schema_def less_Suc_eq)
  then have ta: "t ''Time'' = Some (StrCol [''2012:001'', ''2012:002''])"
    using a(4) by (simp add: demo_simps)
  from C7_column_type_policy [where fs = "[''f'' \<mapsto> [''Time 4RT700T 4RT700T_0 Pitch Roll'',
       ''2012:001 1.0 3.0 5.0 1.0'', ''2012:002 5.0 inf nan 3.0'']]" and filename = "''f''",
      OF demo_file_two wf 2]
  obtain t' num' ds where b: "readfile demo_lib [''f'' \<mapsto> [''Time 4RT700T 4RT700T_0 Pitch Roll'',
         ''2012:001 1.0 3.0 5.0 1.0'', ''2012:002 5.0 inf nan 3.0'']] ''f'' demo_schema = Inr t'"
       "num' < length (names demo_schema)" "names demo_schema ! num' = ''Pitch''"
       "t' ''Pitch'' = Some (DblCol ds)" "length ds = 2"
       "\<forall>i<2. np_double demo_lib
          (tokens ([''2012:001 1.0 3.0 5.0 1.0'', ''2012:002 5.0 inf nan 3.0''] ! i) ! num')
          = Some (ds ! i)"
    using o(2) by auto
  have n3: "num' = 3" using b(2,3) by (auto simp: demo_schema_def less_Suc_eq)
  have "np_double demo_lib (tokens ''2012:001 1.0 3.0 5.0 1.0'' ! 3) = Some (ds ! 0)"
    "np_double demo_lib (tokens ''2012:002 5.0 inf nan 3.0'' ! 3) = Some (ds ! 1)"
    using b(6) [rule_format, of 0] b(6) [rule_format, of 1] n3 by simp_all
  then have "ds ! 0 = Fin 5" "ds ! 1 = NaN"
    by (simp_all add: demo_simps)
  then have "ds = [Fin 5, NaN]" using b(5)
    by (intro nth_equalityI) (auto simp: less_Suc_eq numeral_2_eq_2)
  with a(1-3) ta b(1-4) show ?thesis by blast
qed

text \<open>
  Claim C7 as stated fails on two files. In the first the Time token of the data line is
  the two bytes \<^verbatim>\<open>t\<close> and NUL: the Time column that \<^verbatim>\<open>_readfile\<close> returns holds the
  one byte \<^verbatim>\<open>t\<close>, not the raw token. The second has no data line: its Time column is
  an empty array of doubles, not of strings.
\<close>

theorem C7_counterexample:
  "readfile demo_lib [''f'' \<mapsto> [''header'', [CHR ''t'', CHR 0x00] @ '' 1.0 3.0 5.0 1.0'']]
      ''f'' demo_schema
   = Inr [''Time'' \<mapsto> StrCol [''t''], ''4RT700T'' \<mapsto> DblCol [Fin 1],
          ''4RT700T_0'' \<mapsto> DblCol [Fin 3], ''Pitch'' \<mapsto> DblCol [Fin 5], ''Roll'' \<mapsto> DblCol [Fin 1]]
   \<and> tokens ([CHR ''t'', CHR 0x00] @ '' 1.0 3.0 5.0 1.0'') ! 0 = [CHR ''t'', CHR 0x00]
   \<and> readfile demo_lib [''f'' \<mapsto> [''header'']] ''f'' demo_schema
   = Inr [''Time'' \<mapsto> DblCol [], ''4RT700T'' \<mapsto> DblCol [],
          ''4RT700T_0'' \<mapsto> DblCol [], ''Pitch'' \<mapsto> DblCol [], ''Roll'' \<mapsto> DblCol []]"
  by (simp add: readfile_def token_def double_token_def demo_simps)

section \<open>C10: rows keep the order of the file\<close>

text \<open>
  Claim C10. For every input file that is well formed for the schema, every name \<open>name\<close>
  of the schema and every index \<open>i\<close> below the number of data lines, \<^verbatim>\<open>_readfile\<close>
  returns a table in which element \<open>i\<close> of the column of \<open>name\<close> is made from the token at
  the name's schema position of data line \<open>i\<close> (line \<open>i + 1\<close> of the file): the token
  itself, without trailing NUL bytes, in a string column, its double otherwise. The
  position is the one position of the name in a schema with distinct names, as every
  schema of the registry is (\<open>registry_distinct\<close>), and the last one otherwise. Index
  \<open>-1\<close>, which the report's End block and the ending configuration read, is the last
  data line.
\<close>

theorem C10_row_order:
  assumes "fs filename = Some (header # datalines)" and "well_formed L sub datalines"
    and "name \<in> set (names sub)" and "i < length datalines"
  shows "\<exists>t col num. readfile L fs filename sub = Inr t \<and> t name = Some col
     \<and> num < length (names sub) \<and> names sub ! num = name
     \<and> (\<forall>k<length (names sub). names sub ! k = name \<longrightarrow> k \<le> num)
     \<and> (distinct (names sub) \<longrightarrow> (\<forall>k<length (names sub). names sub ! k = name \<longrightarrow> k = num))
     \<and> num < length (tokens (datalines ! i))
     \<and> (if is_opaque name
        then col_get col (int i) = Inr (Str (rstrip_nul (tokens (datalines ! i) ! num)))
        else \<exists>d. np_double L (tokens (datalines ! i) ! num) = Some d
               \<and> col_get col (int i) = Inr (Dbl d))
     \<and> col_get col (- 1) = col_get col (int (length datalines) - 1)"
proof -
  from readfile_well_formed [where fs = fs and filename = filename, OF assms(1,2)]
  obtain t where t: "readfile L fs filename sub = Inr t"
    and rc: "read_columns L datalines 0 (names sub) Map.empty = Inr t" by blast
  from read_columns_last [OF rc assms(3)] obtain num c where
    num: "num < length (names sub)" "names sub ! num = name"
      "\<forall>k<length (names sub). names sub ! k = name \<longrightarrow> k \<le> num"
    and c: "column_at L datalines num name = Inr c" "t name = Some c" by auto
  have uniq: "distinct (names sub) \<longrightarrow> (\<forall>k<length (names sub). names sub ! k = name \<longrightarrow> k = num)"
    using num(1,2) by (auto simp: nth_eq_iff_index_eq)
  have len: "col_length c = length datalines" using c(1) by (rule column_at_length)
  have il: "i < col_length c" using len assms(4) by simp
  have ne: "datalines \<noteq> []" using assms(4) by auto
  have body: "num < length (tokens (datalines ! i))
     \<and> (if is_opaque name
        then col_get c (int i) = Inr (Str (rstrip_nul (tokens (datalines ! i) ! num)))
        else \<exists>d. np_double L (tokens (datalines ! i) ! num) = Some d
               \<and> col_get c (int i) = Inr (Dbl d))"
  proof (cases "is_opaque name")
    case True
    from column_at_opaque [OF True c(1)]
    have "c = StrCol (map (\<lambda>l. rstrip_nul (tokens l ! num)) datalines)"
      and "num < length (tokens (datalines ! i))"
      using ne assms(4) by (simp_all add: np_array_bytes_def o_def)
    with True il assms(4) show ?thesis by (simp add: col_get_nat)
  next
    case False
    from column_at_numeric [OF False c(1)] obtain ds where
      "c = DblCol ds" "num < length (tokens (datalines ! i))"
      "np_double L (tokens (datalines ! i) ! num) = Some (ds ! i)"
      using assms(4) by auto
    with False il show ?thesis by (simp add: col_get_nat)
  qed
  have "col_get c (- 1) = col_get c (int (length datalines) - 1)"
    using col_get_last [of c] len by simp
  with t c(2) num uniq body
  have "readfile L fs filename sub = Inr t \<and> t name = Some c
     \<and> num < length (names sub) \<and> names sub ! num = name
     \<and> (\<forall>k<length (names sub). names sub ! k = name \<longrightarrow> k \<le> num)
     \<and> (distinct (names sub) \<longrightarrow> (\<forall>k<length (names sub). names sub ! k = name \<longrightarrow> k = num))
     \<and> num < length (tokens (datalines ! i))
     \<and> (if is_opaque name
        then col_get c (int i) = Inr (Str (rstrip_nul (tokens (datalines ! i) ! num)))
        else \<exists>d. np_double L (tokens (datalines ! i) ! num) = Some d
               \<and> col_get c (int i) = Inr (Dbl d))
     \<and> col_get c (- 1) = col_get c (int (length datalines) - 1)"
    by (intro conjI) (assumption | erule conjunct1 | erule conjunct2)+
  then show ?thesis by (intro exI)
qed

text \<open>
  The theorem at the name 4RT700T_0 (third position) and the second data line of a file:
  the element is the double of the token \<^verbatim>\<open>inf\<close>.
\<close>

theorem C10_row_order_witness:
  "\<exists>t col num. readfile demo_lib [''f'' \<mapsto> [''Time 4RT700T 4RT700T_0 Pitch Roll'',
         ''2012:001 1.0 3.0 5.0 1.0'', ''2012:002 5.0 inf nan 3.0'']] ''f'' demo_schema = Inr t
     \<and> t ''4RT700T_0'' = Some col \<and> num = 2
     \<and> tokens ([''2012:001 1.0 3.0 5.0 1.0'', ''2012:002 5.0 inf nan 3.0''] ! 1) ! num = ''inf''
     \<and> col_get col 1 = Inr (Dbl PosInf) \<and> col_get col (- 1) = Inr (Dbl PosInf)"
proof -
  have wf: "well_formed demo_lib demo_schema
      [''2012:001 1.0 3.0 5.0 1.0'', ''2012:002 5.0 inf nan 3.0'']"
    by (simp add: well_formed_def demo_simps less_Suc_eq)
  have 1: "''4RT700T_0'' \<in> set (names demo_schema)" by (simp add: demo_schema_def)
  have 2: "1 < length [''2012:001 1.0 3.0 5.0 1.0'', ''2012:002 5.0 inf nan 3.0'']" by simp
  have o: "\<not> is_opaque ''4RT700T_0''"
    by (simp add: is_opaque_def opaque_names_def lower_def lower_char_def)
  have tk: "tokens ''2012:002 5.0 inf nan 3.0'' ! 2 = ''inf''" by (simp add: demo_simps)
  have dl: "[''2012:001 1.0 3.0 5.0 1.0'', ''2012:002 5.0 inf nan 3.0''] ! 1
      = ''2012:002 5.0 inf nan 3.0''" by simp
  from C10_row_order [where fs = "[''f'' \<mapsto> [''Time 4RT700T 4RT700T_0 Pitch Roll'',
       ''2012:001 1.0 3.0 5.0 1.0'', ''2012:002 5.0 inf nan 3.0'']]" and filename = "''f''",
      OF demo_file_two wf 1 2]
  show ?thesis
  proof (elim exE conjE)
    fix t col num
    assume a: "readfile demo_lib [''f'' \<mapsto> [''Time 4RT700T 4RT700T_0 Pitch Roll'',
         ''2012:001 1.0 3.0 5.0 1.0'', ''2012:002 5.0 inf nan 3.0'']] ''f'' demo_schema = Inr t"
      "t ''4RT700T_0'' = Some col" "num < length (names demo_schema)"
      "names demo_schema ! num = ''4RT700T_0''"
    assume b: "if is_opaque ''4RT700T_0''
        then col_get col (int 1) = Inr (Str (rstrip_nul
               (tokens ([''2012:001 1.0 3.0 5.0 1.0'', ''2012:002 5.0 inf nan 3.0''] ! 1) ! num)))
        else \<exists>d. np_double demo_lib
                 (tokens ([''2012:001 1.0 3.0 5.0 1.0'', ''2012:002 5.0 inf nan 3.0''] ! 1) ! num)
                 = Some d
               \<and> col_get col (int 1) = Inr (Dbl d)"
    assume c: "col_get col (- 1)
        = col_get col (int (length [''2012:001 1.0 3.0 5.0 1.0'', ''2012:002 5.0 inf nan 3.0'']) - 1)"
    have n2: "num = 2" using a(3,4) by (auto simp: demo_schema_def less_Suc_eq)
    from b o obtain d where d: "np_double demo_lib (tokens ''2012:002 5.0 inf nan 3.0'' ! 2) = Some d"
      "col_get col (int 1) = Inr (Dbl d)"
      unfolding n2 dl by auto
    have "d = PosInf" using d(1) unfolding tk by (simp add: demo_lib_def)
    then have "col_get col 1 = Inr (Dbl PosInf)" "col_get col (- 1) = Inr (Dbl PosInf)"
      using d(2) c by simp_all
    with a(1,2) n2 tk dl show ?thesis by auto
  qed
qed

section \<open>The driver loops as sequences of iterations\<close>

lemma andThen_simps [simp]:
  "andThen (w, Some e) r = (w, Some e)"
  "andThen (w, None) r = (w @ fst r, snd r)"
  by (simp_all add: andThen_def)

lemma snd_andThen_left: "snd r1 \<noteq> None \<Longrightarrow> snd (andThen r1 r2) \<noteq> None"
  by (auto simp: andThen_def split: option.splits)

lemma snd_andThen_right: "snd r2 \<noteq> None \<Longrightarrow> snd (andThen r1 r2) \<noteq> None"
  by (auto simp: andThen_def split: option.splits)

lemma snd_andThen_None: "snd (andThen r1 r2) = None \<longleftrightarrow> snd r1 = None \<and> snd r2 = None"
  by (auto simp: andThen_def split: option.splits)

lemma fst_andThen_None: "snd r1 = None \<Longrightarrow> fst (andThen r1 r2) = fst r1 @ fst r2"
  by (simp add: andThen_def)

lemma seq_None: "snd (seq rs) = None \<longleftrightarrow> (\<forall>r\<in>set rs. snd r = None)"
  by (induction rs) (auto simp: snd_andThen_None)

lemma seq_error: "r \<in> set rs \<Longrightarrow> snd r \<noteq> None \<Longrightarrow> snd (seq rs) \<noteq> None"
  by (auto simp: seq_None)

lemma seq_ok: "\<forall>r\<in>set rs. snd r = None \<Longrightarrow> fst (seq rs) = concat (map fst rs)"
  by (induction rs) (auto simp: fst_andThen_None)

lemma seq_append_ok:
  "\<forall>r\<in>set rs. snd r = None \<Longrightarrow> seq (rs @ ss) = (concat (map fst rs) @ fst (seq ss), snd (seq ss))"
  by (induction rs) (auto simp: andThen_def split: option.splits)

lemma model_report_cong:
  "hi name = hi' name \<Longrightarrow> model_report L fs prop review hi name = model_report L fs prop review hi' name"
  by (simp add: model_report_def split: option.splits)

lemma checklist_loop_seq:
  "distinct ms \<Longrightarrow>
   fst (checklist_loop L fs prop review ms w)
     = snd (seq (map (model_report L fs prop review (headerinfo w)) ms))
   \<and> outfile (snd (checklist_loop L fs prop review ms w))
     = outfile w @ fst (seq (map (model_report L fs prop review (headerinfo w)) ms))"
proof (induction ms arbitrary: w)
  case Nil
  then show ?case by simp
next
  case (Cons name rest)
  have d: "distinct rest" "name \<notin> set rest" using Cons.prems by auto
  have cong: "\<And>sub' . map (model_report L fs prop review ((headerinfo w)(name \<mapsto> sub'))) rest
      = map (model_report L fs prop review (headerinfo w)) rest"
    using d(2) by (intro map_cong refl model_report_cong) auto
  show ?case
  proof (cases "snd (model_report L fs prop review (headerinfo w) name)")
    case (Some e)
    then show ?thesis
      by (auto simp: model_report_def Let_def andThen_def
          split: option.splits sum.splits list.splits)
  next
    case None
    then obtain part sub propdata reviewdata time datanames where
      s: "fileparts name = Some part" "headerinfo w name = Some sub"
         "readfile L fs (prop @ part) sub = Inr propdata"
         "readfile L fs (review @ part) sub = Inr reviewdata"
         "names sub = time # datanames"
         "snd (writeReportData L propdata reviewdata datanames (title sub)) = None"
      by (auto simp: model_report_def split: option.splits sum.splits list.splits)
    define w3 where "w3 = w\<lparr>headerinfo := (headerinfo w)(name \<mapsto> sub\<lparr>names := datanames\<rparr>),
        outfile := outfile w @ fst (writeReportData L propdata reviewdata datanames (title sub)),
        stdout := stdout w @ fst (writeReportData L propdata reviewdata datanames (title sub))\<rparr>"
    have step: "checklist_loop L fs prop review (name # rest) w = checklist_loop L fs prop review rest w3"
      using s by (simp add: Let_def w3_def)
    have mr: "model_report L fs prop review (headerinfo w) name
        = writeReportData L propdata reviewdata datanames (title sub)"
      using s by (simp add: model_report_def)
    have hi3: "headerinfo w3 = (headerinfo w)(name \<mapsto> sub\<lparr>names := datanames\<rparr>)"
      by (simp add: w3_def)
    have o3: "outfile w3 = outfile w @ fst (writeReportData L propdata reviewdata datanames (title sub))"
      by (simp add: w3_def)
    from Cons.IH [OF d(1), of w3] show ?thesis
      unfolding step hi3 cong o3 using s(6) mr by (simp add: andThen_def)
  qed
qed

lemma checklist_loop_headerinfo_other:
  "m \<notin> set ms \<Longrightarrow> headerinfo (snd (checklist_loop L fs prop review ms w)) m = headerinfo w m"
proof (induction ms arbitrary: w)
  case Nil
  then show ?case by simp
next
  case (Cons name rest)
  then have m: "m \<noteq> name" "m \<notin> set rest" by auto
  show ?case using Cons.IH [OF m(2)] m(1)
    by (auto simp: Let_def split: option.splits sum.splits list.splits)
qed

lemma checklist_loop_headerinfo:
  "distinct ms \<Longrightarrow> fst (checklist_loop L fs prop review ms w) = None \<Longrightarrow> m \<in> set ms \<Longrightarrow>
   \<exists>sub time. headerinfo w m = Some sub \<and> names sub = time # tl (names sub)
     \<and> headerinfo (snd (checklist_loop L fs prop review ms w)) m
        = Some (sub\<lparr>names := tl (names sub)\<rparr>)"
proof (induction ms arbitrary: w)
  case Nil
  then show ?case by simp
next
  case (Cons name rest)
  have d: "distinct rest" "name \<notin> set rest" using Cons.prems(1) by auto
  from Cons.prems(2) obtain part sub propdata reviewdata time datanames where
    s: "fileparts name = Some part" "headerinfo w name = Some sub"
       "readfile L fs (prop @ part) sub = Inr propdata"
       "readfile L fs (review @ part) sub = Inr reviewdata"
       "names sub = time # datanames"
       "snd (writeReportData L propdata reviewdata datanames (title sub)) = None"
    by (auto simp: Let_def split: option.splits sum.splits list.splits)
  define w3 where "w3 = w\<lparr>headerinfo := (headerinfo w)(name \<mapsto> sub\<lparr>names := datanames\<rparr>),
      outfile := outfile w @ fst (writeReportData L propdata reviewdata datanames (title sub)),
      stdout := stdout w @ fst (writeReportData L propdata reviewdata datanames (title sub))\<rparr>"
  have step: "checklist_loop L fs prop review (name # rest) w = checklist_loop L fs prop review rest w3"
    using s by (simp add: Let_def w3_def)
  have hi3: "headerinfo w3 = (headerinfo w)(name \<mapsto> sub\<lparr>names := datanames\<rparr>)"
    by (simp add: w3_def)
  show ?case
  proof (cases "m = name")
    case True
    have "headerinfo (snd (checklist_loop L fs prop review rest w3)) name = headerinfo w3 name"
      using d(2) by (rule checklist_loop_headerinfo_other)
    then show ?thesis using True s(2,5) unfolding step hi3 by simp
  next
    case False
    then have "m \<in> set rest" using Cons.prems(3) by simp
    moreover have "fst (checklist_loop L fs prop review rest w3) = None"
      using Cons.prems(2) unfolding step .
    ultimately show ?thesis using Cons.IH [OF d(1), of w3] False unfolding step hi3 by simp
  qed
qed

lemma checklist_loop_stdout:
  "distinct ms \<Longrightarrow>
   stdout (snd (checklist_loop L fs prop review ms w))
     = stdout w @ concat (map fst (takeWhile (\<lambda>r. snd r = None)
         (map (model_report L fs prop review (headerinfo w)) ms)))"
proof (induction ms arbitrary: w)
  case Nil
  then show ?case by simp
next
  case (Cons name rest)
  have d: "distinct rest" "name \<notin> set rest" using Cons.prems by auto
  have cong: "\<And>sub' . map (model_report L fs prop review ((headerinfo w)(name \<mapsto> sub'))) rest
      = map (model_report L fs prop review (headerinfo w)) rest"
    using d(2) by (intro map_cong refl model_report_cong) auto
  show ?case
  proof (cases "snd (model_report L fs prop review (headerinfo w) name)")
    case (Some e)
    then show ?thesis
      by (auto simp: model_report_def Let_def split: option.splits sum.splits list.splits)
  next
    case None
    then obtain part sub propdata reviewdata time datanames where
      s: "fileparts name = Some part" "headerinfo w name = Some sub"
         "readfile L fs (prop @ part) sub = Inr propdata"
         "readfile L fs (review @ part) sub = Inr reviewdata"
         "names sub = time # datanames"
         "snd (writeReportData L propdata reviewdata datanames (title sub)) = None"
      by (auto simp: model_report_def split: option.splits sum.splits list.splits)
    define w3 where "w3 = w\<lparr>headerinfo := (headerinfo w)(name \<mapsto> sub\<lparr>names := datanames\<rparr>),
        outfile := outfile w @ fst (writeReportData L propdata reviewdata datanames (title sub)),
        stdout := stdout w @ fst (writeReportData L propdata reviewdata datanames (title sub))\<rparr>"
    have step: "checklist_loop L fs prop review (name # rest) w = checklist_loop L fs prop review rest w3"
      using s by (simp add: Let_def w3_def)
    have mr: "model_report L fs prop review (headerinfo w) name
        = writeReportData L propdata reviewdata datanames (title sub)"
      using s by (simp add: model_report_def)
    have hi3: "headerinfo w3 = (headerinfo w)(name \<mapsto> sub\<lparr>names := datanames\<rparr>)"
      by (simp add: w3_def)
    have o3: "stdout w3 = stdout w @ fst (writeReportData L propdata reviewdata datanames (title sub))"
      by (simp add: w3_def)
    from Cons.IH [OF d(1), of w3] show ?thesis
      unfolding step hi3 cong o3 using s(6) mr by simp
  qed
qed

lemma prop_loop_seq:
  "fst (prop_loop L fs prop num ms w)
     = snd (seq (map (\<lambda>(k, m). model_prop L fs prop (headerinfo w) k m) (enumerate num ms)))
   \<and> outfile (snd (prop_loop L fs prop num ms w))
     = outfile w @ fst (seq (map (\<lambda>(k, m). model_prop L fs prop (headerinfo w) k m) (enumerate num ms)))
   \<and> headerinfo (snd (prop_loop L fs prop num ms w)) = headerinfo w
   \<and> stdout (snd (prop_loop L fs prop num ms w)) = stdout w"
proof (induction ms arbitrary: w num)
  case Nil
  then show ?case by simp
next
  case (Cons name rest)
  show ?case
  proof (cases "snd (model_prop L fs prop (headerinfo w) num name)")
    case (Some e)
    then show ?thesis
      by (auto simp: model_prop_def Let_def andThen_def split: option.splits sum.splits)
  next
    case None
    then obtain part sub propdata where
      s: "fileparts name = Some part" "headerinfo w name = Some sub"
         "readfile L fs (prop @ part) sub = Inr propdata"
      by (auto simp: model_prop_def split: option.splits sum.splits)
    define r where "r = andThen (if num = 0
                  then write1 (time_line L ''Time of Validity:  '' propdata (- 1))
                  else ([], None))
                 (prop_lines L propdata (drop 1 (names sub)))"
    have mp: "model_prop L fs prop (headerinfo w) num name = r"
      using s by (simp add: model_prop_def r_def)
    have rn: "snd r = None" using None mp by simp
    define w1 where "w1 = w\<lparr>outfile := outfile w @ fst r\<rparr>"
    have step: "prop_loop L fs prop num (name # rest) w = prop_loop L fs prop (Suc num) rest w1"
      using s rn by (simp add: Let_def w1_def r_def)
    have hi1: "headerinfo w1 = headerinfo w" "outfile w1 = outfile w @ fst r" "stdout w1 = stdout w"
      by (simp_all add: w1_def)
    from Cons.IH [of "Suc num" w1] show ?thesis
      unfolding step hi1 using rn mp by (simp add: andThen_def)
  qed
qed

lemma prop_line_bytes:
  "propdata loc = Some (np_array_bytes xs) \<Longrightarrow> \<exists>e. prop_line L propdata loc = Inl e"
  by (auto simp: prop_line_def getitem_def col_get_def col_length_def Let_def pct_f_def
      np_array_bytes_def)

lemma prop_lines_error:
  "loc \<in> set locs \<Longrightarrow> loc \<in> set propnames \<Longrightarrow> prop_line L propdata loc = Inl e \<Longrightarrow>
   snd (prop_lines L propdata locs) \<noteq> None"
  by (induction locs) (auto simp: andThen_def write1_def split: option.splits sum.splits)

lemma readfile_opaque_bytes:
  assumes "readfile L fs filename sub = Inr t" "name \<in> set (names sub)" "is_opaque name"
  shows "\<exists>xs. t name = Some (np_array_bytes xs)"
proof -
  from assms(1) obtain header datalines where
    rc: "read_columns L datalines 0 (names sub) Map.empty = Inr t"
    by (auto simp: readfile_def split: option.splits list.splits)
  from read_columns_member [OF rc assms(2)] obtain k c where
    c: "column_at L datalines (0 + k) name = Inr c" "t name = Some c" by blast
  from c(1) assms(3) obtain xs where "c = np_array_bytes xs"
    by (auto simp: column_at_def split: sum.splits)
  with c(2) show ?thesis by blast
qed

lemma model_prop_opaque_error:
  assumes "fileparts name = Some part" "hi name = Some sub" "loc \<in> set (drop 1 (names sub))"
    "loc \<in> set propnames" "is_opaque loc"
  shows "snd (model_prop L fs prop hi num name) \<noteq> None"
proof (cases "readfile L fs (prop @ part) sub")
  case (Inl e)
  then show ?thesis using assms(1,2) by (simp add: model_prop_def)
next
  case (Inr propdata)
  have "loc \<in> set (names sub)" using assms(3) by (meson in_set_dropD)
  from readfile_opaque_bytes [OF Inr this assms(5)] obtain xs where
    "propdata loc = Some (np_array_bytes xs)" by blast
  from prop_line_bytes [of propdata loc xs L, OF this]
  obtain e where "prop_line L propdata loc = Inl e" by blast
  from prop_lines_error [OF assms(3,4) this]
  have "snd (prop_lines L propdata (drop 1 (names sub))) \<noteq> None" .
  then show ?thesis using assms(1,2) Inr
    by (simp add: model_prop_def snd_andThen_right)
qed

section \<open>C2: the ending configuration and the string columns of acisfp\<close>

text \<open>
  Claim C2 does not hold of the code. The name SI of the model acisfp is in the
  allow-list \<^verbatim>\<open>propnames\<close>, and \<^verbatim>\<open>_readfile\<close> keeps its column as byte strings;
  \<^verbatim>\<open>" %s : %f\n" % (loc, propdata[loc][-1])\<close> then raises TypeError. Whatever the plot
  files hold, \<^verbatim>\<open>writePropData\<close> ends with an exception: no run writes a line for SI
  or Within_Limit.
\<close>

theorem C2_writePropData_always_raises:
  "fst (writePropData L fs prop world_init) \<noteq> None"
proof -
  have a: "fileparts ''acisfp'' = Some ''_acis_fp_plot.txt''" by (simp add: fileparts_def)
  obtain sub where sub: "headerinfo_init ''acisfp'' = Some sub" "''SI'' \<in> set (drop 1 (names sub))"
    by (simp add: headerinfo_init_def headerinfo_list_def)
  have p: "''SI'' \<in> set propnames" by (simp add: propnames_def)
  have o: "is_opaque ''SI''" by (simp add: is_opaque_def opaque_names_def lower_def lower_char_def)
  have e: "snd (model_prop L fs prop headerinfo_init 9 ''acisfp'') \<noteq> None"
    by (rule model_prop_opaque_error [where hi = headerinfo_init, OF a sub p o])
  have "(9, ''acisfp'') \<in> set (enumerate 0 plotorder)"
    by (simp add: plotorder_def)
  then have "model_prop L fs prop headerinfo_init 9 ''acisfp''
      \<in> set (map (\<lambda>(k, m). model_prop L fs prop headerinfo_init k m) (enumerate 0 plotorder))"
    by force
  from seq_error [OF this e]
  have "fst (prop_loop L fs prop 0 plotorder (world_init\<lparr>outfile := []\<rparr>)) \<noteq> None"
    using prop_loop_seq [where num = 0 and ms = plotorder and w = "world_init\<lparr>outfile := []\<rparr>"]
    by (simp add: world_init_def)
  then show ?thesis by (auto simp: writePropData_def Let_def split: option.splits)
qed

section \<open>The report section of well-shaped tables\<close>

lemma value_lines_ok:
  "\<forall>name\<in>set ns. \<exists>s. value_line L d i name = Inr s \<Longrightarrow>
   value_lines L d i ns = (value_block L d i ns, None)"
  by (induction ns) (auto simp: value_block_def write1_def text_of_def)

lemma extreme_lines_ok:
  "\<forall>name\<in>set ns. \<not> is_opaque name \<longrightarrow> (\<exists>s. extreme_line L arg d name = Inr s) \<Longrightarrow>
   extreme_lines L arg d ns = (extreme_block L arg d ns, None)"
  by (induction ns) (auto simp: extreme_block_def write1_def text_of_def)

lemma nanargmax_Inr:
  assumes "\<exists>x\<in>set a. x \<noteq> NaN"
  shows "\<exists>i<length a. nanargmax a = Inr i"
proof -
  define a' where "a' = map (\<lambda>x. if isnan x then NegInf else x) a"
  have "a' \<noteq> []" "NaN \<notin> set a'" using assms by (auto simp: a'_def isnan_def)
  from argmax_first [OF this] obtain r where "argmax a' = Inr r" "r < length a'" by blast
  moreover have "\<not> list_all id (map isnan a)"
    using assms by (auto simp: list_all_iff isnan_def)
  ultimately show ?thesis
    by (auto simp: nanargmax_def replace_nan_def a'_def)
qed

lemma nanargmin_Inr:
  assumes "\<exists>x\<in>set a. x \<noteq> NaN"
  shows "\<exists>i<length a. nanargmin a = Inr i"
proof -
  have "\<exists>x\<in>set (map neg a). x \<noteq> NaN" using assms by auto
  from nanargmax_Inr [OF this] show ?thesis by (simp add: nanargmin_neg)
qed

lemma well_shaped_Time:
  "well_shaped dn t \<Longrightarrow> t ''Time'' = Some (StrCol (time_column t)) \<and> time_column t \<noteq> []"
  by (auto simp: well_shaped_def time_column_def split: option.splits column.splits)

lemma well_shaped_column:
  assumes "well_shaped dn t" "name \<in> set dn"
  shows "(is_opaque name \<longrightarrow> (\<exists>xs. t name = Some (StrCol xs) \<and> length xs = length (time_column t)))
     \<and> (\<not> is_opaque name \<longrightarrow> t name = Some (DblCol (numeric_column t name))
           \<and> length (numeric_column t name) = length (time_column t))"
proof -
  from assms(1) obtain ts where ts: "t ''Time'' = Some (StrCol ts)"
    and all: "\<forall>name\<in>set dn. case t name of
                  Some (StrCol xs) \<Rightarrow> is_opaque name \<and> length xs = length ts
                | Some (DblCol a) \<Rightarrow> \<not> is_opaque name \<and> length a = length ts
                | None \<Rightarrow> False"
    by (auto simp: well_shaped_def split: option.splits column.splits)
  have tc: "time_column t = ts" using ts by (simp add: time_column_def)
  from all assms(2) have "case t name of
                  Some (StrCol xs) \<Rightarrow> is_opaque name \<and> length xs = length ts
                | Some (DblCol a) \<Rightarrow> \<not> is_opaque name \<and> length a = length ts
                | None \<Rightarrow> False" by blast
  then show ?thesis unfolding tc
    by (auto simp: numeric_column_def split: option.splits column.splits)
qed

lemma col_get_first: "xs \<noteq> [] \<Longrightarrow> col_get (StrCol xs) 0 = Inr (Str (hd xs))"
  "ds \<noteq> [] \<Longrightarrow> col_get (DblCol ds) 0 = Inr (Dbl (hd ds))"
  by (simp_all add: col_get_def col_length_def Let_def hd_conv_nth)

lemma col_get_minus1: "xs \<noteq> [] \<Longrightarrow> col_get (StrCol xs) (- 1) = Inr (Str (last xs))"
  "ds \<noteq> [] \<Longrightarrow> col_get (DblCol ds) (- 1) = Inr (Dbl (last ds))"
  by (simp_all add: col_get_def col_length_def Let_def last_conv_nth nat_diff_distrib')

lemma time_line_ok:
  assumes "well_shaped dn t"
  shows "time_line L label t 0 = Inr (label @ fmt_s L (Str (hd (time_column t))) @ nl)"
    and "time_line L label t (- 1) = Inr (label @ fmt_s L (Str (last (time_column t))) @ nl)"
  using well_shaped_Time [OF assms]
  by (simp_all add: time_line_def getitem_def col_get_first col_get_minus1)

lemma value_line_first:
  assumes "well_shaped dn t" "name \<in> set dn"
  shows "\<exists>s. value_line L t 0 name = Inr s"
proof (cases "is_opaque name")
  case True
  with well_shaped_column [OF assms] well_shaped_Time [OF assms(1)]
  obtain xs where "t name = Some (StrCol xs)" "xs \<noteq> []" by fastforce
  with True show ?thesis by (simp add: value_line_def getitem_def col_get_first)
next
  case False
  with well_shaped_column [OF assms] well_shaped_Time [OF assms(1)]
  have "t name = Some (DblCol (numeric_column t name))" "numeric_column t name \<noteq> []" by auto
  with False show ?thesis by (simp add: value_line_def getitem_def col_get_first pct_f_def)
qed

lemma value_line_last:
  assumes "well_shaped dn t" "name \<in> set dn"
  shows "\<exists>s. value_line L t (- 1) name = Inr s"
proof (cases "is_opaque name")
  case True
  with well_shaped_column [OF assms] well_shaped_Time [OF assms(1)]
  obtain xs where "t name = Some (StrCol xs)" "xs \<noteq> []" by fastforce
  with True show ?thesis by (simp add: value_line_def getitem_def col_get_minus1)
next
  case False
  with well_shaped_column [OF assms] well_shaped_Time [OF assms(1)]
  have "t name = Some (DblCol (numeric_column t name))" "numeric_column t name \<noteq> []" by auto
  with False show ?thesis by (simp add: value_line_def getitem_def col_get_minus1 pct_f_def)
qed

lemma extreme_line_at:
  assumes "well_shaped dn t" "name \<in> set dn" "\<not> is_opaque name"
    and "arg (DblCol (numeric_column t name)) = Inr i" "i < length (numeric_column t name)"
  shows "extreme_line L arg t name
     = Inr (''    '' @ name @ '': '' @ fmt_f L (numeric_column t name ! i) @ ''  (''
            @ fmt_s L (Str (time_column t ! i)) @ '')'' @ nl)"
proof -
  from well_shaped_column [OF assms(1,2)] assms(3)
  have c: "t name = Some (DblCol (numeric_column t name))"
    "length (numeric_column t name) = length (time_column t)" by auto
  have tm: "t ''Time'' = Some (StrCol (time_column t))"
    using well_shaped_Time [OF assms(1)] by simp
  show ?thesis using c tm assms(4,5)
    by (simp add: extreme_line_def getitem_def col_get_nat col_length_def pct_f_def)
qed

lemma extreme_line_max:
  assumes "well_shaped dn t" "name \<in> set dn" "\<not> is_opaque name"
    and "\<exists>x\<in>set (numeric_column t name). x \<noteq> NaN"
  shows "\<exists>i<length (numeric_column t name). nanargmax (numeric_column t name) = Inr i
     \<and> extreme_line L col_nanargmax t name
       = Inr (''    '' @ name @ '': '' @ fmt_f L (numeric_column t name ! i) @ ''  (''
              @ fmt_s L (Str (time_column t ! i)) @ '')'' @ nl)"
proof -
  from nanargmax_Inr [OF assms(4)] obtain i where
    i: "i < length (numeric_column t name)" "nanargmax (numeric_column t name) = Inr i" by blast
  have "col_nanargmax (DblCol (numeric_column t name)) = Inr i"
    using i(2) by (simp add: col_nanargmax_def)
  from extreme_line_at [where arg = col_nanargmax, OF assms(1-3) this i(1)] i
  show ?thesis by blast
qed

lemma extreme_line_min:
  assumes "well_shaped dn t" "name \<in> set dn" "\<not> is_opaque name"
    and "\<exists>x\<in>set (numeric_column t name). x \<noteq> NaN"
  shows "\<exists>i<length (numeric_column t name). nanargmin (numeric_column t name) = Inr i
     \<and> extreme_line L col_nanargmin t name
       = Inr (''    '' @ name @ '': '' @ fmt_f L (numeric_column t name ! i) @ ''  (''
              @ fmt_s L (Str (time_column t ! i)) @ '')'' @ nl)"
proof -
  from nanargmin_Inr [OF assms(4)] obtain i where
    i: "i < length (numeric_column t name)" "nanargmin (numeric_column t name) = Inr i" by blast
  have "col_nanargmin (DblCol (numeric_column t name)) = Inr i"
    using i(2) by (simp add: col_nanargmin_def)
  from extreme_line_at [where arg = col_nanargmin, OF assms(1-3) this i(1)] i
  show ?thesis by blast
qed

lemma writeReportData_ok:
  assumes "well_shaped dn p" "well_shaped dn r"
    and "\<forall>n\<in>set dn. \<not> is_opaque n \<longrightarrow> (\<exists>x\<in>set (numeric_column r n). x \<noteq> NaN)"
  shows "writeReportData L p r dn ttl = (section_text L p r dn ttl, None)"
proof -
  have v1: "value_lines L p 0 dn = (value_block L p 0 dn, None)"
    by (rule value_lines_ok) (use value_line_first [OF assms(1)] in blast)
  have v2: "value_lines L r 0 dn = (value_block L r 0 dn, None)"
    by (rule value_lines_ok) (use value_line_first [OF assms(2)] in blast)
  have v3: "value_lines L r (- 1) dn = (value_block L r (- 1) dn, None)"
    by (rule value_lines_ok) (use value_line_last [OF assms(2)] in blast)
  have e1: "extreme_lines L col_nanargmax r dn = (extreme_block L col_nanargmax r dn, None)"
    by (rule extreme_lines_ok) (use extreme_line_max [OF assms(2)] assms(3) in blast)
  have e2: "extreme_lines L col_nanargmin r dn = (extreme_block L col_nanargmin r dn, None)"
    by (rule extreme_lines_ok) (use extreme_line_min [OF assms(2)] assms(3) in blast)
  show ?thesis
    by (simp add: writeReportData_def section_text_def v1 v2 v3 e1 e2 write1_def text_of_def
        time_line_ok [OF assms(1)] time_line_ok [OF assms(2)])
qed

section \<open>From well-formed files to the report section\<close>

lemma is_opaque_Time: "is_opaque ''Time''"
  by (simp add: is_opaque_def opaque_names_def lower_def lower_char_def)

lemma readfile_well_shaped:
  assumes "fs f = Some (header # ls)" "ls \<noteq> []" "well_formed L sub ls"
    and "names sub = ''Time'' # dn"
  shows "\<exists>t. readfile L fs f sub = Inr t \<and> well_shaped dn t
     \<and> length (time_column t) = length ls
     \<and> (has_number L sub ls \<longrightarrow>
          (\<forall>n\<in>set dn. \<not> is_opaque n \<longrightarrow> (\<exists>x\<in>set (numeric_column t n). x \<noteq> NaN)))"
proof -
  from readfile_well_formed [where fs = fs and filename = f, OF assms(1,3)]
  obtain t where t: "readfile L fs f sub = Inr t"
    and rc: "read_columns L ls 0 (names sub) Map.empty = Inr t" by blast
  have col: "\<And>name. name \<in> set (names sub) \<Longrightarrow>
      (is_opaque name \<longrightarrow> (\<exists>xs. t name = Some (StrCol xs) \<and> length xs = length ls))
      \<and> (\<not> is_opaque name \<longrightarrow> (\<exists>k ds. k < length (names sub) \<and> names sub ! k = name
            \<and> t name = Some (DblCol ds) \<and> length ds = length ls
            \<and> (\<forall>i<length ls. np_double L (tokens (ls ! i) ! k) = Some (ds ! i))))"
  proof -
    fix name assume "name \<in> set (names sub)"
    from read_columns_last [OF rc this] obtain k c where
      k: "k < length (names sub)" "names sub ! k = name"
      and c: "column_at L ls k name = Inr c" "t name = Some c" by auto
    show "(is_opaque name \<longrightarrow> (\<exists>xs. t name = Some (StrCol xs) \<and> length xs = length ls))
      \<and> (\<not> is_opaque name \<longrightarrow> (\<exists>k ds. k < length (names sub) \<and> names sub ! k = name
            \<and> t name = Some (DblCol ds) \<and> length ds = length ls
            \<and> (\<forall>i<length ls. np_double L (tokens (ls ! i) ! k) = Some (ds ! i))))"
    proof (cases "is_opaque name")
      case True
      from column_at_opaque [OF True c(1)] assms(2)
      have "c = StrCol (map rstrip_nul (map (\<lambda>l. tokens l ! k) ls))"
        by (simp add: np_array_bytes_def)
      with True c(2) show ?thesis by simp
    next
      case False
      from column_at_numeric [OF False c(1)] obtain ds where
        "c = DblCol ds" "length ds = length ls"
        "\<forall>i<length ls. np_double L (tokens (ls ! i) ! k) = Some (ds ! i)" by blast
      with False c(2) k show ?thesis by blast
    qed
  qed
  have "''Time'' \<in> set (names sub)" using assms(4) by simp
  from col [OF this] is_opaque_Time obtain ts where
    ts: "t ''Time'' = Some (StrCol ts)" "length ts = length ls" by blast
  have tc: "time_column t = ts" using ts(1) by (simp add: time_column_def)
  have ws: "well_shaped dn t"
    unfolding well_shaped_def
  proof (simp add: ts(1), intro conjI ballI)
    show "ts \<noteq> []" using ts(2) assms(2) by auto
  next
    fix name assume "name \<in> set dn"
    then have "name \<in> set (names sub)" using assms(4) by simp
    from col [OF this] ts(2)
    show "case t name of None \<Rightarrow> False
          | Some (StrCol xs) \<Rightarrow> is_opaque name \<and> length xs = length ts
          | Some (DblCol a) \<Rightarrow> \<not> is_opaque name \<and> length a = length ts"
      by (cases "is_opaque name") auto
  qed
  have hn: "has_number L sub ls \<longrightarrow>
          (\<forall>n\<in>set dn. \<not> is_opaque n \<longrightarrow> (\<exists>x\<in>set (numeric_column t n). x \<noteq> NaN))"
  proof (intro impI ballI)
    fix n assume h: "has_number L sub ls" and n: "n \<in> set dn" "\<not> is_opaque n"
    have "n \<in> set (names sub)" using n(1) assms(4) by simp
    from col [OF this] n(2) obtain k ds where
      k: "k < length (names sub)" "names sub ! k = n" "t n = Some (DblCol ds)"
        "length ds = length ls"
        "\<forall>i<length ls. np_double L (tokens (ls ! i) ! k) = Some (ds ! i)" by blast
    from h k(1,2) n(2) obtain l where
      l: "l \<in> set ls" "np_double L (tokens l ! k) \<notin> {None, Some NaN}"
      by (auto simp: has_number_def)
    from l(1) obtain i where i: "i < length ls" "ls ! i = l" by (auto simp: in_set_conv_nth)
    have "ds ! i \<noteq> NaN" using k(5) i l(2) by auto
    moreover have "ds ! i \<in> set ds" using i(1) k(4) by simp
    moreover have "numeric_column t n = ds" using k(3) by (simp add: numeric_column_def)
    ultimately show "\<exists>x\<in>set (numeric_column t n). x \<noteq> NaN" by blast
  qed
  from t ws tc ts(2) hn show ?thesis by blast
qed

lemma registry_plotorder:
  "m \<in> set plotorder \<Longrightarrow>
   \<exists>part sub dn. fileparts m = Some part \<and> headerinfo_init m = Some sub
     \<and> names sub = ''Time'' # dn"
  by (auto simp: plotorder_def fileparts_def headerinfo_init_def headerinfo_list_def)

lemma model_report_ok:
  assumes "m \<in> set plotorder" "model_input_ok L fs prop review m"
  shows "\<exists>part sub dn p r. fileparts m = Some part \<and> headerinfo_init m = Some sub
     \<and> names sub = ''Time'' # dn
     \<and> readfile L fs (prop @ part) sub = Inr p \<and> readfile L fs (review @ part) sub = Inr r
     \<and> well_shaped dn p \<and> well_shaped dn r
     \<and> (\<forall>n\<in>set dn. \<not> is_opaque n \<longrightarrow> (\<exists>x\<in>set (numeric_column r n). x \<noteq> NaN))
     \<and> model_report L fs prop review headerinfo_init m = (section_text L p r dn (title sub), None)"
proof -
  from registry_plotorder [OF assms(1)] obtain part sub dn where
    reg: "fileparts m = Some part" "headerinfo_init m = Some sub" "names sub = ''Time'' # dn"
    by blast
  have "\<exists>h1 ls1 h2 ls2. fs (prop @ part) = Some (h1 # ls1) \<and> fs (review @ part) = Some (h2 # ls2)
      \<and> ls1 \<noteq> [] \<and> ls2 \<noteq> [] \<and> well_formed L sub ls1 \<and> well_formed L sub ls2
      \<and> has_number L sub ls2"
  proof (cases "fs (prop @ part)")
    case None
    then show ?thesis using assms(2) reg(1,2) by (simp add: model_input_ok_def)
  next
    case s1: (Some x)
    show ?thesis
    proof (cases "fs (review @ part)")
      case None
      then show ?thesis using assms(2) reg(1,2) s1
        by (simp add: model_input_ok_def split: list.splits)
    next
      case s2: (Some y)
      show ?thesis
      proof (cases x)
        case Nil
        then show ?thesis using assms(2) reg(1,2) s1 s2 by (simp add: model_input_ok_def)
      next
        case c1: (Cons h1 ls1)
        show ?thesis
        proof (cases y)
          case Nil
          then show ?thesis using assms(2) reg(1,2) s1 s2 c1 by (simp add: model_input_ok_def)
        next
          case c2: (Cons h2 ls2)
          then show ?thesis using assms(2) reg(1,2) s1 s2 c1 by (simp add: model_input_ok_def)
        qed
      qed
    qed
  qed
  then obtain h1 ls1 h2 ls2 where
    f: "fs (prop @ part) = Some (h1 # ls1)" "fs (review @ part) = Some (h2 # ls2)"
      "ls1 \<noteq> []" "ls2 \<noteq> []" "well_formed L sub ls1" "well_formed L sub ls2"
      "has_number L sub ls2"
    by blast
  from readfile_well_shaped [where fs = fs and f = "prop @ part", OF f(1,3,5) reg(3)]
  obtain p where p: "readfile L fs (prop @ part) sub = Inr p" "well_shaped dn p" by blast
  from readfile_well_shaped [where fs = fs and f = "review @ part", OF f(2,4,6) reg(3)] f(7)
  obtain r where r: "readfile L fs (review @ part) sub = Inr r" "well_shaped dn r"
    "\<forall>n\<in>set dn. \<not> is_opaque n \<longrightarrow> (\<exists>x\<in>set (numeric_column r n). x \<noteq> NaN)" by blast
  have "model_report L fs prop review headerinfo_init m
      = writeReportData L p r dn (title sub)"
    using reg p(1) r(1) by (simp add: model_report_def)
  then have "model_report L fs prop review headerinfo_init m
      = (section_text L p r dn (title sub), None)"
    using writeReportData_ok [OF p(2) r(2,3)] by simp
  with reg p r show ?thesis by blast
qed

section \<open>The run up to its first exception\<close>

lemma seq_first_error:
  assumes "k < length rs" "\<forall>j<k. snd (rs ! j) = None" "snd (rs ! k) \<noteq> None"
  shows "seq rs = (concat (map fst (take k rs)) @ fst (rs ! k), snd (rs ! k))"
proof -
  have rs: "rs = take k rs @ (rs ! k # drop (Suc k) rs)"
    using assms(1) by (simp add: id_take_nth_drop [symmetric])
  have ok: "\<forall>r\<in>set (take k rs). snd r = None"
  proof
    fix r assume "r \<in> set (take k rs)"
    then obtain i where i: "i < length (take k rs)" "take k rs ! i = r"
      by (auto simp: in_set_conv_nth)
    then have "i < k" "rs ! i = r" by simp_all
    then show "snd r = None" using assms(2) by auto
  qed
  obtain e where e: "snd (rs ! k) = Some e" using assms(3) by auto
  have "seq (rs ! k # drop (Suc k) rs) = (fst (rs ! k), snd (rs ! k))"
    using e by (simp add: andThen_def)
  then have "seq (take k rs @ (rs ! k # drop (Suc k) rs))
      = (concat (map fst (take k rs)) @ fst (rs ! k), snd (rs ! k))"
    using seq_append_ok [OF ok, of "rs ! k # drop (Suc k) rs"] by simp
  with rs show ?thesis by simp
qed

lemma takeWhile_first_error:
  assumes "k < length rs" "\<forall>j<k. snd (rs ! j) = None" "snd (rs ! k) \<noteq> None"
  shows "takeWhile (\<lambda>r. snd r = None) rs = take k rs"
  by (rule takeWhile_eq_take_P_nth) (use assms in auto)

lemma writeChecklistData_loop:
  "fst (writeChecklistData L fs prop review w)
     = fst (checklist_loop L fs prop review plotorder (w\<lparr>outfile := []\<rparr>))
   \<and> outfile (snd (writeChecklistData L fs prop review w))
     = outfile (snd (checklist_loop L fs prop review plotorder (w\<lparr>outfile := []\<rparr>)))
   \<and> headerinfo (snd (writeChecklistData L fs prop review w))
     = headerinfo (snd (checklist_loop L fs prop review plotorder (w\<lparr>outfile := []\<rparr>)))"
  by (simp add: writeChecklistData_def Let_def split: option.splits)

lemma writeChecklistData_stdout_error:
  "fst (checklist_loop L fs prop review plotorder (w\<lparr>outfile := []\<rparr>)) \<noteq> None \<Longrightarrow>
   stdout (snd (writeChecklistData L fs prop review w))
     = stdout (snd (checklist_loop L fs prop review plotorder (w\<lparr>outfile := []\<rparr>)))"
  by (auto simp: writeChecklistData_def Let_def split: option.splits)

lemma writePropData_loop:
  "fst (writePropData L fs prop w) = fst (prop_loop L fs prop 0 plotorder (w\<lparr>outfile := []\<rparr>))
   \<and> outfile (snd (writePropData L fs prop w))
     = outfile (snd (prop_loop L fs prop 0 plotorder (w\<lparr>outfile := []\<rparr>)))
   \<and> headerinfo (snd (writePropData L fs prop w))
     = headerinfo (snd (prop_loop L fs prop 0 plotorder (w\<lparr>outfile := []\<rparr>)))"
  by (simp add: writePropData_def Let_def split: option.splits)

lemma distinct_plotorder: "distinct plotorder"
  by (simp add: plotorder_def)

lemma checklist_loop_popped:
  "distinct ms \<Longrightarrow> k < length ms \<Longrightarrow>
   \<forall>j\<le>k. snd (model_report L fs prop review (headerinfo w) (ms ! j)) = None \<Longrightarrow>
   \<exists>sub time. headerinfo w (ms ! k) = Some sub \<and> names sub = time # tl (names sub)
     \<and> headerinfo (snd (checklist_loop L fs prop review ms w)) (ms ! k)
        = Some (sub\<lparr>names := tl (names sub)\<rparr>)"
proof (induction ms arbitrary: w k)
  case Nil
  then show ?case by simp
next
  case (Cons name rest)
  have d: "distinct rest" "name \<notin> set rest" using Cons.prems(1) by auto
  have "snd (model_report L fs prop review (headerinfo w) name) = None"
    using Cons.prems(3) by force
  then obtain part sub propdata reviewdata time datanames where
    s: "fileparts name = Some part" "headerinfo w name = Some sub"
       "readfile L fs (prop @ part) sub = Inr propdata"
       "readfile L fs (review @ part) sub = Inr reviewdata"
       "names sub = time # datanames"
       "snd (writeReportData L propdata reviewdata datanames (title sub)) = None"
    by (auto simp: model_report_def split: option.splits sum.splits list.splits)
  define w3 where "w3 = w\<lparr>headerinfo := (headerinfo w)(name \<mapsto> sub\<lparr>names := datanames\<rparr>),
      outfile := outfile w @ fst (writeReportData L propdata reviewdata datanames (title sub)),
      stdout := stdout w @ fst (writeReportData L propdata reviewdata datanames (title sub))\<rparr>"
  have step: "checklist_loop L fs prop review (name # rest) w = checklist_loop L fs prop review rest w3"
    using s by (simp add: Let_def w3_def)
  have hi3: "headerinfo w3 = (headerinfo w)(name \<mapsto> sub\<lparr>names := datanames\<rparr>)"
    by (simp add: w3_def)
  show ?case
  proof (cases k)
    case 0
    have "headerinfo (snd (checklist_loop L fs prop review rest w3)) name = headerinfo w3 name"
      using d(2) by (rule checklist_loop_headerinfo_other)
    then show ?thesis using 0 s(2,5) unfolding step hi3 by simp
  next
    case (Suc k')
    then have k': "k' < length rest" using Cons.prems(2) by simp
    have ne: "\<forall>j\<le>k'. rest ! j \<noteq> name" using d(2) k' by (metis le_less_trans nth_mem)
    have "\<forall>j\<le>k'. snd (model_report L fs prop review (headerinfo w3) (rest ! j)) = None"
    proof (intro allI impI)
      fix j assume j: "j \<le> k'"
      then have "snd (model_report L fs prop review (headerinfo w) ((name # rest) ! Suc j)) = None"
        using Cons.prems(3) Suc by auto
      moreover have "model_report L fs prop review (headerinfo w3) (rest ! j)
          = model_report L fs prop review (headerinfo w) (rest ! j)"
        using ne j by (intro model_report_cong) (simp add: hi3)
      ultimately show "snd (model_report L fs prop review (headerinfo w3) (rest ! j)) = None"
        by simp
    qed
    from Cons.IH [OF d(1) k' this] ne show ?thesis
      unfolding step Suc hi3 by simp
  qed
qed

lemma writeChecklistData_stdout_ok:
  "fst (checklist_loop L fs prop review plotorder (w\<lparr>outfile := []\<rparr>)) = None \<Longrightarrow>
   stdout (snd (writeChecklistData L fs prop review w))
     = stdout (snd (checklist_loop L fs prop review plotorder (w\<lparr>outfile := []\<rparr>)))
       @ [''Wrote thermal report data to '' @ (review @ ''_Thermal_Load_Review_Report.txt'')
          @ ''_Thermal_Load_Review_Report.txt'' @ nl @ nl]"
  by (simp add: writeChecklistData_def Let_def)

lemma readfile_missing: "fs f = None \<Longrightarrow> readfile L fs f sub = Inl FileNotFoundError"
  by (simp add: readfile_def)

lemma readfile_bad_token:
  assumes "fs f = Some (header # datalines)" "bad_token L sub datalines"
  shows "\<exists>e. readfile L fs f sub = Inl e"
proof -
  from assms(2) obtain l num where l: "l \<in> set datalines" "num < length (names sub)"
    "\<not> is_opaque (names sub ! num)" "num < length (tokens l)"
    "np_double L (tokens l ! num) = None"
    by (auto simp: bad_token_def)
  from column_at_bad_token [OF l(1,3,4,5)]
  obtain e where "column_at L datalines (0 + num) (names sub ! num) = Inl e" by auto
  from read_columns_fails [OF l(2) this] show ?thesis
    using assms(1) by (simp add: readfile_def)
qed

lemma nanargmax_all_nan: "set a \<subseteq> {NaN} \<Longrightarrow> nanargmax a = Inl ValueError"
  by (cases a) (auto simp: nanargmax_def replace_nan_def argmax_def isnan_def list_all_iff)

lemma extreme_lines_error:
  "name \<in> set ns \<Longrightarrow> \<not> is_opaque name \<Longrightarrow> extreme_line L arg d name = Inl e \<Longrightarrow>
   snd (extreme_lines L arg d ns) \<noteq> None"
  by (induction ns) (auto simp: andThen_def write1_def split: option.splits sum.splits)

lemma writeReportData_all_nan:
  assumes "name \<in> set datanames" "\<not> is_opaque name" "reviewdata name = Some (DblCol a)"
    "set a \<subseteq> {NaN}"
  shows "snd (writeReportData L propdata reviewdata datanames modelname) \<noteq> None"
proof -
  have "extreme_line L col_nanargmax reviewdata name = Inl ValueError"
    using assms(3,4) by (simp add: extreme_line_def getitem_def col_nanargmax_def nanargmax_all_nan)
  from extreme_lines_error [OF assms(1,2) this]
  have "snd (extreme_lines L col_nanargmax reviewdata datanames) \<noteq> None" .
  then show ?thesis unfolding writeReportData_def
    by (rule seq_error [where r = "extreme_lines L col_nanargmax reviewdata datanames", rotated]) simp
qed

lemma model_report_read_error:
  assumes "fileparts m = Some part" "hi m = Some sub"
    and "(\<exists>e. readfile L fs (prop @ part) sub = Inl e) \<or> (\<exists>e. readfile L fs (review @ part) sub = Inl e)"
  shows "snd (model_report L fs prop review hi m) \<noteq> None"
    and "fst (model_report L fs prop review hi m) = []"
  using assms by (auto simp: model_report_def split: sum.splits)

lemma input_defect_error:
  assumes "input_defect L fs prop review m"
  shows "snd (model_report L fs prop review headerinfo_init m) \<noteq> None"
proof -
  from assms obtain part sub where ps: "fileparts m = Some part" "headerinfo_init m = Some sub"
    by (auto simp: input_defect_def split: option.splits)
  from assms ps have d: "fs (prop @ part) = None \<or> fs (review @ part) = None
          \<or> (\<exists>f\<in>{prop @ part, review @ part}.
                case fs f of Some (header # datalines) \<Rightarrow> bad_token L sub datalines
                | _ \<Rightarrow> False)
          \<or> (case readfile L fs (review @ part) sub of
                Inr reviewdata \<Rightarrow> all_nan_column sub reviewdata | Inl e \<Rightarrow> False)"
    by (simp add: input_defect_def)
  have rd: "(\<exists>e. readfile L fs (prop @ part) sub = Inl e)
        \<or> (\<exists>e. readfile L fs (review @ part) sub = Inl e) \<Longrightarrow> ?thesis"
    using model_report_read_error(1) [where m = m and hi = headerinfo_init and fs = fs, OF ps] by blast
  from d show ?thesis
  proof (elim disjE)
    assume "fs (prop @ part) = None"
    from readfile_missing [where fs = fs and f = "prop @ part", OF this] show ?thesis by (intro rd) blast
  next
    assume "fs (review @ part) = None"
    from readfile_missing [where fs = fs and f = "review @ part", OF this] show ?thesis by (intro rd) blast
  next
    assume "\<exists>f\<in>{prop @ part, review @ part}.
                case fs f of Some (header # datalines) \<Rightarrow> bad_token L sub datalines
                | _ \<Rightarrow> False"
    then obtain f where f: "f = prop @ part \<or> f = review @ part"
      "case fs f of Some (header # datalines) \<Rightarrow> bad_token L sub datalines | _ \<Rightarrow> False"
      by auto
    from f(2) obtain header datalines where
      "fs f = Some (header # datalines)" "bad_token L sub datalines"
      by (cases "fs f") (auto split: list.splits)
    from readfile_bad_token [where fs = fs and f = f, OF this] f(1)
    show ?thesis by (intro rd) auto
  next
    assume "case readfile L fs (review @ part) sub of
                Inr reviewdata \<Rightarrow> all_nan_column sub reviewdata | Inl e \<Rightarrow> False"
    then obtain reviewdata where r: "readfile L fs (review @ part) sub = Inr reviewdata"
      "all_nan_column sub reviewdata"
      by (cases "readfile L fs (review @ part) sub") auto
    from r(2) obtain name where n: "name \<in> set (tl (names sub))" "\<not> is_opaque name"
      "case reviewdata name of Some (DblCol a) \<Rightarrow> a \<noteq> [] \<and> set a \<subseteq> {NaN} | _ \<Rightarrow> False"
      by (auto simp: all_nan_column_def)
    from n(3) obtain a where a: "reviewdata name = Some (DblCol a)" "set a \<subseteq> {NaN}"
      by (cases "reviewdata name") (auto split: column.splits)
    show ?thesis
    proof (cases "readfile L fs (prop @ part) sub")
      case (Inl e)
      then show ?thesis by (intro rd) blast
    next
      case (Inr propdata)
      show ?thesis
      proof (cases "names sub")
        case Nil
        then show ?thesis using ps Inr r(1) by (simp add: model_report_def)
      next
        case (Cons time datanames)
        then have "name \<in> set datanames" using n(1) by simp
        from writeReportData_all_nan [where reviewdata = reviewdata and name = name, OF this n(2) a]
        show ?thesis using ps Inr r(1) Cons by (simp add: model_report_def)
      qed
    qed
  qed
qed

lemma first_error_index:
  assumes "m \<in> set ms" "snd (R m) \<noteq> None"
  shows "\<exists>k<length ms. (\<forall>j<k. snd (R (ms ! j)) = None) \<and> snd (R (ms ! k)) \<noteq> None"
proof -
  from assms(1) obtain i where i: "i < length ms" "ms ! i = m" by (auto simp: in_set_conv_nth)
  define P where "P = (\<lambda>k. k < length ms \<and> snd (R (ms ! k)) \<noteq> None)"
  have "P i" using i assms(2) by (simp add: P_def)
  then have "P (LEAST k. P k)" by (rule LeastI)
  moreover have "\<forall>j<LEAST k. P k. \<not> P j" using not_less_Least by blast
  ultimately have "(LEAST k. P k) < length ms
      \<and> (\<forall>j<LEAST k. P k. snd (R (ms ! j)) = None) \<and> snd (R (ms ! (LEAST k. P k))) \<noteq> None"
    unfolding P_def by (metis (mono_tags, lifting) less_trans)
  then show ?thesis by blast
qed

section \<open>Facts of the example data\<close>

lemma demo_tokens: "tokens ''2012:001 1.0 3.0 5.0 1.0'' = [''2012:001'', ''1.0'', ''3.0'', ''5.0'', ''1.0'']"
  by (simp add: tokens_def split_def strip_def is_space_def)

lemma demo_oba_registry:
  "fileparts ''oba'' = Some ''_4rt700t_plot.txt''" "headerinfo_init ''oba'' = Some demo_schema"
  by (simp_all add: fileparts_def headerinfo_init_def headerinfo_list_def demo_schema_def)

lemma demo_opaque:
  "is_opaque ''Time''" "\<not> is_opaque ''4RT700T''" "\<not> is_opaque ''4RT700T_0''"
  "\<not> is_opaque ''Pitch''" "\<not> is_opaque ''Roll''"
  by (simp_all add: is_opaque_def opaque_names_def lower_def lower_char_def)

lemma demo_np_double:
  "np_double demo_lib ''1.0'' = Some (Fin 1)" "np_double demo_lib ''3.0'' = Some (Fin 3)"
  "np_double demo_lib ''5.0'' = Some (Fin 5)"
  by (simp_all add: demo_lib_def)

lemma demo_well_formed:
  "well_formed demo_lib demo_schema [''2012:001 1.0 3.0 5.0 1.0'']"
  "has_number demo_lib demo_schema [''2012:001 1.0 3.0 5.0 1.0'']"
  by (simp_all add: well_formed_def has_number_def demo_tokens demo_schema_def less_Suc_eq
      demo_opaque demo_np_double)

lemma demo_oba_input_ok: "model_input_ok demo_lib demo_fs ''P'' ''R'' ''oba''"
  by (simp add: model_input_ok_def demo_oba_registry demo_fs_def demo_well_formed)

section \<open>C1: the Max Values and Min Values lines\<close>




section \<open>C3: the registry after a run\<close>

text \<open>
  Claim C3 does not hold of the code. \<^verbatim>\<open>writeChecklistData\<close> takes the registry's own
  list, \<^verbatim>\<open>datanames = self.headerinfo[name]["names"]\<close>, and removes its first element
  with \<^verbatim>\<open>datanames.pop(0)\<close>; \<^verbatim>\<open>writePropData\<close> takes a copy,
  \<^verbatim>\<open>self.headerinfo[name]["names"][1:]\<close>. For every model \<open>plotorder ! k\<close> such that the
  input of the models up to it is in order, the registry's schema after the comparison
  report has lost its first name Time: its name list is the tail of the list it had at
  construction, Time is not in it, and the schema differs from the one at construction.
  The ending-configuration writer leaves the registry as it is.
\<close>

theorem C3_registry_mutated:
  assumes "k < length plotorder"
    and "\<forall>j\<le>k. model_input_ok L fs prop review (plotorder ! j)"
  shows "\<exists>sub. headerinfo_init (plotorder ! k) = Some sub \<and> hd (names sub) = ''Time''
     \<and> headerinfo (snd (writeChecklistData L fs prop review world_init)) (plotorder ! k)
         = Some (sub\<lparr>names := tl (names sub)\<rparr>)
     \<and> ''Time'' \<notin> set (tl (names sub))
     \<and> headerinfo (snd (writeChecklistData L fs prop review world_init)) (plotorder ! k)
         \<noteq> headerinfo_init (plotorder ! k)
     \<and> headerinfo (snd (writePropData L fs prop world_init)) = headerinfo_init"
proof -
  define w where "w = world_init\<lparr>outfile := []\<rparr>"
  have hw: "headerinfo w = headerinfo_init" by (simp add: w_def world_init_def)
  have ok: "\<forall>j\<le>k. snd (model_report L fs prop review (headerinfo w) (plotorder ! j)) = None"
  proof (intro allI impI)
    fix j assume j: "j \<le> k"
    then have "plotorder ! j \<in> set plotorder" using assms(1) by simp
    moreover have "model_input_ok L fs prop review (plotorder ! j)" using assms(2) j by simp
    ultimately obtain s where
      "model_report L fs prop review headerinfo_init (plotorder ! j) = (s, None)"
      using model_report_ok [where m = "plotorder ! j" and L = L and fs = fs] by blast
    then show "snd (model_report L fs prop review (headerinfo w) (plotorder ! j)) = None"
      by (simp add: hw)
  qed
  from checklist_loop_popped [OF distinct_plotorder assms(1) ok]
  obtain sub time where s: "headerinfo_init (plotorder ! k) = Some sub"
    "names sub = time # tl (names sub)"
    "headerinfo (snd (checklist_loop L fs prop review plotorder w)) (plotorder ! k)
        = Some (sub\<lparr>names := tl (names sub)\<rparr>)"
    unfolding hw by blast
  have "plotorder ! k \<in> set plotorder" using assms(1) by simp
  from registry_plotorder [OF this] s(1) obtain dn where dn: "names sub = ''Time'' # dn" by auto
  have t: "''Time'' \<notin> set (tl (names sub))"
    using registry_distinct [OF s(1)] dn by simp
  have after: "headerinfo (snd (writeChecklistData L fs prop review world_init)) (plotorder ! k)
      = Some (sub\<lparr>names := tl (names sub)\<rparr>)"
    using s(3) writeChecklistData_loop [of L fs "prop" review world_init]
    by (simp add: w_def)
  have "names (sub\<lparr>names := tl (names sub)\<rparr>) \<noteq> names sub" using dn by simp
  then have ne: "sub\<lparr>names := tl (names sub)\<rparr> \<noteq> sub" by metis
  have p: "headerinfo (snd (writePropData L fs prop world_init)) = headerinfo_init"
    using writePropData_loop [of L fs "prop" world_init]
      prop_loop_seq [where num = 0 and ms = plotorder and w = w and L = L and fs = fs]
    by (simp add: w_def world_init_def)
  show ?thesis
    using s(1) dn after t ne p by simp
qed

text \<open>
  The theorem at \<open>k = 0\<close>, for the model \<^verbatim>\<open>oba\<close> and the files of \<open>demo_fs\<close>: after the
  comparison report the name list of \<^verbatim>\<open>oba\<close> begins with 4RT700T.
\<close>

theorem C3_registry_mutated_witness:
  "0 < length plotorder
   \<and> model_input_ok demo_lib demo_fs ''P'' ''R'' (plotorder ! 0)
   \<and> headerinfo_init ''oba'' = Some demo_schema
   \<and> headerinfo (snd (writeChecklistData demo_lib demo_fs ''P'' ''R'' world_init)) ''oba''
       = Some \<lparr>columns = 5, names = [''4RT700T'', ''4RT700T_0'', ''Pitch'', ''Roll''],
               title = ''OBA: Forward Bulkhead''\<rparr>
   \<and> headerinfo (snd (writePropData demo_lib demo_fs ''P'' world_init)) ''oba''
       = Some demo_schema"
proof -
  have p0: "plotorder ! 0 = ''oba''" "0 < length plotorder" by (simp_all add: plotorder_def)
  have h: "\<forall>j\<le>0. model_input_ok demo_lib demo_fs ''P'' ''R'' (plotorder ! j)"
    using demo_oba_input_ok by (simp add: p0)
  from C3_registry_mutated [where k = 0 and L = demo_lib and fs = demo_fs, OF p0(2) h]
  show ?thesis using h p0 by (simp add: demo_oba_registry demo_schema_def)
qed

end

